theory Spec2Isabelle
  imports Main "HOL-Library.AList"
begin

section \<open>The form-validation hook \<open>useFormValidation\<close>\<close>

text \<open>
  The development embeds the hook of \<^verbatim>\<open>src/hooks/useFormValidation.js\<close> (the variant with
  \<open>isDirty\<close>, \<open>setFieldValue\<close> and \<open>setFieldError\<close>) and the \<open>handleChange\<close> and
  \<open>getFieldState\<close> of the second variant of the hook, whose \<open>validateField\<close>, \<open>handleBlur\<close>
  and \<open>validateAll\<close> are the same text.

  Conventions of the embedding:
  \<^item> a JavaScript object used as a dictionary is an association list of its own keys in
    insertion order. The read \<open>obj[k]\<close> goes through the prototype chain: it finds the own
    entry, or else what \<open>Object.prototype\<close> defines under \<open>k\<close>, or else nothing
    (\<open>js_lookup\<close>). The spread \<open>{...prev, [k]: v}\<close> writes an own entry and is
    \<open>AList.update\<close> (an existing key keeps its place, a new key goes to the end);
    \<open>Object.keys\<close> lists the own keys and is \<open>map fst\<close> (its numeric-key ordering is not
    modelled, and no statement depends on the order);
  \<^item> each React state setter takes effect at once, so an operation of the hook is a function
    from the state before it to the state after it, and the \<open>values\<close> a callback closes over
    are the \<open>values\<close> of the state the operation starts in. A setter that has run before an
    exception is thrown keeps its effect;
  \<^item> a validation rule is a total function from the field value to a message string, as the
    hook's documentation requires of its second argument (a rule returns \<open>""\<close> or the message).
\<close>

subsection \<open>JavaScript values\<close>

text \<open>
  \<open>JInherited k\<close> is the value a plain object inherits under the name \<open>k\<close> from
  \<open>Object.prototype\<close>: a function, and for \<open>__proto__\<close> the object \<open>Object.prototype\<close>
  itself.
\<close>

datatype jsval =
    JUndefined
  | JNull
  | JBool bool
  | JNum int
  | JStr string
  | JFiles "string list"
  | JObj "(string \<times> jsval) list"
  | JInherited string

datatype js_error = TypeError | Thrown string

text \<open>Truthiness, as \<open>!v\<close>, \<open>v && ...\<close> and \<open>v ? a : b\<close> test it.\<close>

fun truthy :: "jsval \<Rightarrow> bool" where
  "truthy JUndefined = False"
| "truthy JNull = False"
| "truthy (JBool b) = b"
| "truthy (JNum n) = (n \<noteq> 0)"
| "truthy (JStr s) = (s \<noteq> [])"
| "truthy (JFiles fs) = True"
| "truthy (JObj ps) = True"
| "truthy (JInherited k) = True"

text \<open>
  \<open>typeof v === "object"\<close>: true of \<open>null\<close>, of a file list and of any object (of the
  inherited values only \<open>Object.prototype\<close> is one; the others are functions).
\<close>

fun typeof_object :: "jsval \<Rightarrow> bool" where
  "typeof_object JNull = True"
| "typeof_object (JFiles fs) = True"
| "typeof_object (JObj ps) = True"
| "typeof_object (JInherited k) = (k = ''__proto__'')"
| "typeof_object v = False"

text \<open>
  \<open>k in v\<close>, for the key \<open>target\<close> the hook asks about (it is no key of a file list, of a
  function or of \<open>Object.prototype\<close>). The hook evaluates it only after \<open>v\<close> has passed the
  truthiness and \<open>typeof\<close> tests, so never on \<open>null\<close> or a primitive value, where \<open>in\<close>
  would throw.
\<close>

fun has_key :: "string \<Rightarrow> jsval \<Rightarrow> bool" where
  "has_key k (JObj ps) = (map_of ps k \<noteq> None)"
| "has_key k v = False"

text \<open>
  \<open>v.k\<close>, for the keys \<open>target\<close>, \<open>type\<close>, \<open>checked\<close>, \<open>files\<close> and \<open>value\<close> that the hook
  reads (\<open>Object.prototype\<close> defines none of them): reading a property of \<open>undefined\<close> or
  \<open>null\<close> throws a \<open>TypeError\<close>; a primitive value, a function and a file list have none
  of these properties, so the read gives \<open>undefined\<close>.
\<close>

fun get_prop :: "jsval \<Rightarrow> string \<Rightarrow> js_error + jsval" where
  "get_prop JUndefined k = Inl TypeError"
| "get_prop JNull k = Inl TypeError"
| "get_prop (JObj ps) k = (case map_of ps k of None \<Rightarrow> Inr JUndefined | Some v \<Rightarrow> Inr v)"
| "get_prop v k = Inr JUndefined"

subsection \<open>Reading a dictionary object\<close>

type_synonym 'v obj = "(string \<times> 'v) list"

text \<open>
  The property names that every plain object inherits from \<open>Object.prototype\<close>
  (ECMAScript, with its Annex B). The objects the hook indexes by field name
  (\<open>validationRules\<close>, \<open>values\<close>, \<open>errors\<close>, \<open>touched\<close>) are plain objects.
\<close>

definition proto_keys :: "string list" where
  "proto_keys =
     [''constructor'', ''hasOwnProperty'', ''isPrototypeOf'', ''propertyIsEnumerable'',
      ''toLocaleString'', ''toString'', ''valueOf'', ''__proto__'',
      ''__defineGetter__'', ''__defineSetter__'', ''__lookupGetter__'', ''__lookupSetter__'']"

text \<open>
  \<open>obj[name]\<close>: the own entry if there is one; otherwise the inherited value if
  \<open>Object.prototype\<close> defines the name; otherwise \<open>undefined\<close>.
\<close>

datatype 'v lookup = Absent | Own 'v | Inherited

definition js_lookup :: "'v obj \<Rightarrow> string \<Rightarrow> 'v lookup" where
  "js_lookup ob name =
     (case map_of ob name of
        Some v \<Rightarrow> Own v
      | None \<Rightarrow> if name \<in> set proto_keys then Inherited else Absent)"

subsection \<open>Rules and state\<close>

type_synonym rule = "jsval \<Rightarrow> string"

text \<open>
  The five \<open>useState\<close> cells of the hook. The field \<open>values'\<close> is the cell \<open>values\<close>
  (the plain name is a keyword of Isabelle).
\<close>

record form_state =
  values' :: "jsval obj"
  errors :: "string obj"
  touched :: "bool obj"
  isSubmitting :: bool
  isDirty :: bool

text \<open>The state of the first render: \<open>useState(initialValues)\<close>, \<open>useState({})\<close>, \<open>useState(false)\<close>.\<close>

definition initial_state :: "jsval obj \<Rightarrow> form_state" where
  "initial_state initialValues =
     \<lparr>values' = initialValues, errors = [], touched = [], isSubmitting = False, isDirty = False\<rparr>"

text \<open>\<open>values[name]\<close>, as a value.\<close>

definition get_value :: "jsval obj \<Rightarrow> string \<Rightarrow> jsval" where
  "get_value vs name =
     (case js_lookup vs name of
        Own v \<Rightarrow> v
      | Inherited \<Rightarrow> JInherited name
      | Absent \<Rightarrow> JUndefined)"

text \<open>
  The truth value of \<open>touched[name]\<close> and of \<open>errors[name]\<close>, as \<open>getFieldState\<close> tests
  them: an inherited function is truthy, a missing entry is \<open>undefined\<close>, the empty string
  is falsy.
\<close>

definition is_touched :: "bool obj \<Rightarrow> string \<Rightarrow> bool" where
  "is_touched ts name =
     (case js_lookup ts name of Own b \<Rightarrow> b | Inherited \<Rightarrow> True | Absent \<Rightarrow> False)"

definition error_truthy :: "string obj \<Rightarrow> string \<Rightarrow> bool" where
  "error_truthy es name =
     (case js_lookup es name of Own e \<Rightarrow> e \<noteq> [] | Inherited \<Rightarrow> True | Absent \<Rightarrow> False)"

text \<open>
  The object \<open>es\<close> has an entry of its own for \<open>name\<close> that holds a non-empty message
  (the entries are what \<open>Object.keys\<close> counts).
\<close>

definition has_error :: "string obj \<Rightarrow> string \<Rightarrow> bool" where
  "has_error es name = (case map_of es name of None \<Rightarrow> False | Some e \<Rightarrow> e \<noteq> [])"

subsection \<open>validateField\<close>

text \<open>
  The loop \<open>for (const rule of rules) { const error = rule(value); if (error) return error; }
  return "";\<close>. The second component counts the calls of rules the loop has made, so that
  "no later rule is evaluated" can be stated.
\<close>

fun run_rules :: "rule list \<Rightarrow> jsval \<Rightarrow> string \<times> nat" where
  "run_rules [] v = ([], 0)"
| "run_rules (rule # rules) v =
     (let error = rule v in
      if error \<noteq> [] then (error, 1)
      else (case run_rules rules v of (e, n) \<Rightarrow> (e, Suc n)))"

text \<open>
  \<open>const rules = validationRules[name]; if (!rules) return "";\<close> and then the loop. A rule
  list is an array, which is truthy. For a name that \<open>validationRules\<close> does not have and
  \<open>Object.prototype\<close> defines, \<open>rules\<close> is the inherited value: it is truthy and not
  iterable, so \<open>for ... of\<close> throws a \<open>TypeError\<close>.
\<close>

definition validateField_run ::
  "rule list obj \<Rightarrow> string \<Rightarrow> jsval \<Rightarrow> js_error + string \<times> nat" where
  "validateField_run validationRules name v =
     (case js_lookup validationRules name of
        Absent \<Rightarrow> Inr ([], 0)
      | Inherited \<Rightarrow> Inl TypeError
      | Own rules \<Rightarrow> Inr (run_rules rules v))"

definition validateField :: "rule list obj \<Rightarrow> string \<Rightarrow> jsval \<Rightarrow> js_error + string" where
  "validateField validationRules name v =
     (case validateField_run validationRules name v of
        Inl err \<Rightarrow> Inl err
      | Inr (error, calls) \<Rightarrow> Inr error)"

text \<open>
  The required-check of the hook's documentation:
  \<open>(value) => !value ? "Email es requerido" : ""\<close>, with the message as a parameter.
\<close>

definition required_rule :: "string \<Rightarrow> rule" where
  "required_rule message = (\<lambda>v. if \<not> truthy v then message else [])"

subsection \<open>handleChange and handleBlur\<close>

text \<open>
  An operation that writes state and may throw answers \<open>Inr\<close> the state it leaves when it
  returns, and \<open>Inl\<close> the exception together with the state the setters that ran before
  the throw have left.
\<close>

type_synonym outcome = "js_error \<times> form_state + form_state"

definition state_after :: "outcome \<Rightarrow> form_state" where
  "state_after r = (case r of Inl (err, s) \<Rightarrow> s | Inr s \<Rightarrow> s)"

text \<open>
  The test \<open>eventOrValue && typeof eventOrValue === "object" && "target" in eventOrValue\<close>
  of \<open>handleChange\<close>.
\<close>

definition is_event :: "jsval \<Rightarrow> bool" where
  "is_event eventOrValue =
     (truthy eventOrValue \<and> typeof_object eventOrValue \<and> has_key ''target'' eventOrValue)"

text \<open>
  The value \<open>handleChange\<close> extracts from its argument: of an event, \<open>target.checked\<close> for
  a checkbox, \<open>target.files\<close> for a file input and \<open>target.value\<close> otherwise; of anything
  else the argument itself. Reading \<open>target.type\<close> throws when \<open>target\<close> is \<open>undefined\<close>
  or \<open>null\<close>.
\<close>

definition extract_value :: "jsval \<Rightarrow> js_error + jsval" where
  "extract_value eventOrValue =
     (if is_event eventOrValue then
        (case get_prop eventOrValue ''target'' of
           Inl err \<Rightarrow> Inl err
         | Inr target \<Rightarrow>
             (case get_prop target ''type'' of
                Inl err \<Rightarrow> Inl err
              | Inr ty \<Rightarrow>
                  if ty = JStr ''checkbox'' then get_prop target ''checked''
                  else if ty = JStr ''file'' then get_prop target ''files''
                  else get_prop target ''value''))
      else Inr eventOrValue)"

text \<open>
  \<open>handleChange(name)(eventOrValue)\<close>: the value is extracted (an exception here leaves
  the state as it was); \<open>setValues\<close>, \<open>setTouched\<close> and \<open>setIsDirty\<close> run; then
  \<open>validateField\<close> is called, and only if it returns does \<open>setErrors\<close> run.
\<close>

definition handleChange :: "rule list obj \<Rightarrow> string \<Rightarrow> jsval \<Rightarrow> form_state \<Rightarrow> outcome" where
  "handleChange validationRules name eventOrValue s =
     (case extract_value eventOrValue of
        Inl err \<Rightarrow> Inl (err, s)
      | Inr v \<Rightarrow>
          (let s1 = s\<lparr>values' := AList.update name v (values' s),
                      touched := AList.update name True (touched s),
                      isDirty := True\<rparr>
           in case validateField validationRules name v of
                Inl err \<Rightarrow> Inl (err, s1)
              | Inr error \<Rightarrow> Inr (s1\<lparr>errors := AList.update name error (errors s1)\<rparr>)))"

text \<open>
  \<open>handleBlur(name)()\<close>: \<open>setTouched\<close>, then \<open>validateField(name, values[name])\<close>, then
  \<open>setErrors\<close>.
\<close>

definition handleBlur :: "rule list obj \<Rightarrow> string \<Rightarrow> form_state \<Rightarrow> outcome" where
  "handleBlur validationRules name s =
     (let s1 = s\<lparr>touched := AList.update name True (touched s)\<rparr>
      in case validateField validationRules name (get_value (values' s) name) of
           Inl err \<Rightarrow> Inl (err, s1)
         | Inr error \<Rightarrow> Inr (s1\<lparr>errors := AList.update name error (errors s1)\<rparr>))"

text \<open>
  \<open>handleChange(name)(e)\<close> of the second variant of the hook, which has no \<open>isDirty\<close>:
  \<open>const value = e.target.value;\<close>, then \<open>setValues\<close> and \<open>setTouched\<close>, then
  \<open>validateField\<close> and \<open>setErrors\<close>. (The other operations of that variant write \<open>values\<close>,
  \<open>touched\<close> and \<open>errors\<close> as those of the first do.)
\<close>

definition handleChange_simple ::
  "rule list obj \<Rightarrow> string \<Rightarrow> jsval \<Rightarrow> form_state \<Rightarrow> outcome" where
  "handleChange_simple validationRules name e s =
     (case get_prop e ''target'' of
        Inl err \<Rightarrow> Inl (err, s)
      | Inr target \<Rightarrow>
          (case get_prop target ''value'' of
             Inl err \<Rightarrow> Inl (err, s)
           | Inr v \<Rightarrow>
               (let s1 = s\<lparr>values' := AList.update name v (values' s),
                           touched := AList.update name True (touched s)\<rparr>
                in case validateField validationRules name v of
                     Inl err \<Rightarrow> Inl (err, s1)
                   | Inr error \<Rightarrow>
                       Inr (s1\<lparr>errors := AList.update name error (errors s1)\<rparr>))))"

subsection \<open>getFieldState\<close>

text \<open>
  The hook with \<open>isDirty\<close>:
  \<open>if (!touched[name]) return ""; return errors[name] ? "error" : values[name] ? "success" : "";\<close>
  Its neutral state is the empty string.
\<close>

definition getFieldState :: "form_state \<Rightarrow> string \<Rightarrow> string" where
  "getFieldState s name =
     (if \<not> is_touched (touched s) name then []
      else if error_truthy (errors s) name then ''error''
      else if truthy (get_value (values' s) name) then ''success''
      else [])"

text \<open>
  The second variant of the hook (it reads only \<open>touched\<close> and \<open>errors\<close>):
  \<open>if (!touched[name]) return "neutral"; return errors[name] ? "error" : "success";\<close>
\<close>

definition getFieldState_simple :: "form_state \<Rightarrow> string \<Rightarrow> string" where
  "getFieldState_simple s name =
     (if \<not> is_touched (touched s) name then ''neutral''
      else if error_truthy (errors s) name then ''error''
      else ''success'')"

subsection \<open>validateAll\<close>

text \<open>
  The \<open>forEach\<close> over \<open>Object.keys(validationRules)\<close>, on the pair
  \<open>(newErrors, newTouched)\<close>: \<open>newTouched[name] = true\<close>, the call of \<open>validateField\<close>, and
  \<open>if (error) newErrors[name] = error\<close>. An exception of \<open>validateField\<close> ends the loop and
  the two local objects are lost. The two assignments make an entry, as they do for every
  key but an own key \<open>__proto__\<close> of \<open>validationRules\<close>, which an object literal of the
  documented form \<open>{ fieldName: [rule1, rule2, ...] }\<close> does not have.
\<close>

fun validateAll_loop ::
  "rule list obj \<Rightarrow> jsval obj \<Rightarrow> string list \<Rightarrow> string obj \<times> bool obj
     \<Rightarrow> js_error + string obj \<times> bool obj" where
  "validateAll_loop validationRules vs [] acc = Inr acc"
| "validateAll_loop validationRules vs (name # names) acc =
     (case acc of (newErrors, newTouched) \<Rightarrow>
        (case validateField validationRules name (get_value vs name) of
           Inl err \<Rightarrow> Inl err
         | Inr error \<Rightarrow>
             validateAll_loop validationRules vs names
               (if error \<noteq> [] then AList.update name error newErrors else newErrors,
                AList.update name True newTouched)))"

text \<open>
  \<open>validateAll()\<close>: the loop, then \<open>setTouched(newTouched)\<close>, \<open>setErrors(newErrors)\<close> and
  the result \<open>Object.keys(newErrors).length === 0\<close>.
\<close>

definition validateAll :: "rule list obj \<Rightarrow> form_state \<Rightarrow> js_error + bool \<times> form_state" where
  "validateAll validationRules s =
     (case validateAll_loop validationRules (values' s) (map fst validationRules) ([], []) of
        Inl err \<Rightarrow> Inl err
      | Inr (newErrors, newTouched) \<Rightarrow>
          Inr (length (map fst newErrors) = 0, s\<lparr>touched := newTouched, errors := newErrors\<rparr>))"

subsection \<open>handleSubmit\<close>

text \<open>
  The submit callback is supplied by the caller. It receives \<open>values\<close>, may use the
  operations of the hook it closes over (the forms of the repository call \<open>form.reset()\<close> in
  it), and its promise is fulfilled or rejected; a callback that never settles never lets the
  handler go on, and is not a value of this type.
\<close>

datatype settled = Fulfilled | Rejected js_error

type_synonym submit_callback = "jsval obj \<Rightarrow> form_state \<Rightarrow> settled \<times> form_state"

text \<open>What the handler does besides writing \<open>touched\<close> and \<open>errors\<close>, in the order it does it.\<close>

datatype effect =
    PreventDefault
  | SetIsSubmitting bool
  | OnSubmit "jsval obj"
  | ConsoleError js_error
  | ScheduleFocusFirstError

record submit_run =
  promise :: settled
  after :: form_state
  effects :: "effect list"

text \<open>
  \<open>handleSubmit(onSubmit)(e)\<close>. The argument \<open>e\<close> is whether an event was passed
  (\<open>if (e) e.preventDefault()\<close>); \<open>promise\<close> is how the promise of the \<open>async\<close> handler itself
  settles. The call of \<open>validateAll()\<close> is outside the \<open>try\<close>: an exception of it would
  reject the promise of the handler after \<open>setIsSubmitting(true)\<close>.
\<close>

definition handleSubmit ::
  "rule list obj \<Rightarrow> submit_callback \<Rightarrow> bool \<Rightarrow> form_state \<Rightarrow> submit_run" where
  "handleSubmit validationRules onSubmit e s =
     (let start = (if e then [PreventDefault] else []) @ [SetIsSubmitting True];
          s1 = s\<lparr>isSubmitting := True\<rparr>
      in case validateAll validationRules s1 of
           Inl err \<Rightarrow> \<lparr>promise = Rejected err, after = s1, effects = start\<rparr>
         | Inr (isFormValid, s2) \<Rightarrow>
             if isFormValid then
               (case onSubmit (values' s) s2 of
                  (Fulfilled, s3) \<Rightarrow>
                    \<lparr>promise = Fulfilled, after = s3\<lparr>isSubmitting := False\<rparr>,
                     effects = start @ [OnSubmit (values' s), SetIsSubmitting False]\<rparr>
                | (Rejected err, s3) \<Rightarrow>
                    \<lparr>promise = Fulfilled, after = s3\<lparr>isSubmitting := False\<rparr>,
                     effects = start @ [OnSubmit (values' s), ConsoleError err,
                                        SetIsSubmitting False]\<rparr>)
             else
               \<lparr>promise = Fulfilled, after = s2\<lparr>isSubmitting := False\<rparr>,
                effects = start @ [ScheduleFocusFirstError, SetIsSubmitting False]\<rparr>)"

text \<open>The arguments of the calls of \<open>onSubmit\<close>, and the values written to \<open>isSubmitting\<close>.\<close>

fun onSubmit_calls :: "effect list \<Rightarrow> jsval obj list" where
  "onSubmit_calls [] = []"
| "onSubmit_calls (OnSubmit vs # es) = vs # onSubmit_calls es"
| "onSubmit_calls (x # es) = onSubmit_calls es"

fun isSubmitting_writes :: "effect list \<Rightarrow> bool list" where
  "isSubmitting_writes [] = []"
| "isSubmitting_writes (SetIsSubmitting b # es) = b # isSubmitting_writes es"
| "isSubmitting_writes (x # es) = isSubmitting_writes es"

subsection \<open>reset, setFieldValue, setFieldError\<close>

definition reset :: "jsval obj \<Rightarrow> form_state \<Rightarrow> form_state" where
  "reset initialValues s =
     s\<lparr>values' := initialValues, errors := [], touched := [],
       isSubmitting := False, isDirty := False\<rparr>"

definition setFieldValue :: "string \<Rightarrow> jsval \<Rightarrow> form_state \<Rightarrow> form_state" where
  "setFieldValue name v s = s\<lparr>values' := AList.update name v (values' s), isDirty := True\<rparr>"

definition setFieldError :: "string \<Rightarrow> string \<Rightarrow> form_state \<Rightarrow> form_state" where
  "setFieldError name error s =
     s\<lparr>errors := AList.update name error (errors s),
       touched := AList.update name True (touched s)\<rparr>"

subsection \<open>Fields without rules\<close>

text \<open>
  No field without an entry in \<open>validationRules\<close> has a non-empty message stored in
  \<open>errors\<close>: the invariant of the states reached without \<open>setFieldError\<close> on such a field.
\<close>

definition unregistered_valid :: "rule list obj \<Rightarrow> form_state \<Rightarrow> bool" where
  "unregistered_valid validationRules s =
     list_all (\<lambda>name. map_of validationRules name \<noteq> None \<or> \<not> has_error (errors s) name)
       (map fst (errors s))"

section \<open>Properties\<close>

subsection \<open>Reading a dictionary object\<close>

lemma js_lookup_own: "map_of ob name = Some v \<Longrightarrow> js_lookup ob name = Own v"
  by (simp add: js_lookup_def)

lemma js_lookup_registered:
  "name \<in> fst ` set ob \<Longrightarrow> \<exists>v. map_of ob name = Some v \<and> js_lookup ob name = Own v"
proof -
  assume "name \<in> fst ` set ob"
  then obtain v where "map_of ob name = Some v"
    by (metis domD dom_map_of_conv_image_fst)
  then show ?thesis by (simp add: js_lookup_def)
qed

lemma js_lookup_plain:
  "name \<notin> set proto_keys \<Longrightarrow>
   js_lookup ob name = (case map_of ob name of Some v \<Rightarrow> Own v | None \<Rightarrow> Absent)"
  by (simp add: js_lookup_def split: option.splits)

lemma js_lookup_inherited:
  "name \<in> set proto_keys \<Longrightarrow> map_of ob name = None \<Longrightarrow> js_lookup ob name = Inherited"
  by (simp add: js_lookup_def)

lemma js_lookup_update:
  "js_lookup (AList.update k v ob) name = (if name = k then Own v else js_lookup ob name)"
  by (simp add: js_lookup_def update_conv')

subsection \<open>validateField\<close>

lemma run_rules_first:
  "k < length rules \<Longrightarrow> \<forall>i<k. (rules ! i) v = [] \<Longrightarrow> (rules ! k) v \<noteq> []
     \<Longrightarrow> run_rules rules v = ((rules ! k) v, Suc k)"
proof (induction rules arbitrary: k)
  case Nil
  then show ?case by simp
next
  case (Cons r rs)
  show ?case
  proof (cases k)
    case 0
    with Cons.prems show ?thesis by (simp add: Let_def)
  next
    case (Suc j)
    from Cons.prems Suc have head: "r v = []" by auto
    from Cons.prems Suc have "j < length rs" "\<forall>i<j. (rs ! i) v = []" "(rs ! j) v \<noteq> []"
      by auto
    then have "run_rules rs v = ((rs ! j) v, Suc j)" by (rule Cons.IH)
    with head Suc show ?thesis by (simp add: Let_def)
  qed
qed

lemma run_rules_all_empty:
  "\<forall>r \<in> set rules. r v = [] \<Longrightarrow> run_rules rules v = ([], length rules)"
  by (induction rules) (simp_all add: Let_def)

lemma run_rules_prefix:
  "\<forall>r \<in> set pre. r v = [] \<Longrightarrow> r v \<noteq> []
     \<Longrightarrow> run_rules (pre @ r # later) v = (r v, Suc (length pre))"
  by (induction pre) (simp_all add: Let_def)

lemma validateField_absent: "js_lookup R f = Absent \<Longrightarrow> validateField R f v = Inr []"
  by (simp add: validateField_def validateField_run_def)

lemma validateField_inherited: "js_lookup R f = Inherited \<Longrightarrow> validateField R f v = Inl TypeError"
  by (simp add: validateField_def validateField_run_def)

lemma validateField_own:
  "js_lookup R f = Own rules \<Longrightarrow> validateField R f v = Inr (fst (run_rules rules v))"
  by (simp add: validateField_def validateField_run_def split: prod.splits)

lemma validateField_registered:
  "f \<in> fst ` set R \<Longrightarrow> \<exists>m. validateField R f v = Inr m"
  using js_lookup_registered [of f R] by (auto simp: validateField_own)

lemma validateField_unregistered:
  "map_of R f = None \<Longrightarrow> f \<notin> set proto_keys \<Longrightarrow> validateField R f v = Inr []"
  by (simp add: validateField_absent js_lookup_def)

text \<open>
  What \<open>validateField\<close> does, by the three outcomes of the read \<open>validationRules[name]\<close>.
  With a rule list of its own, the field gets the result of the first rule whose result is
  non-empty, after exactly that many rule calls and whatever rules follow, and the empty
  string when every rule returns it; a required-check in front decides a falsy value.
\<close>

lemma validateField_by_lookup:
  "(js_lookup validationRules f = Absent \<longrightarrow> validateField validationRules f v = Inr [])
   \<and> (js_lookup validationRules f = Inherited \<longrightarrow>
        validateField validationRules f v = Inl TypeError)
   \<and> (\<forall>rules. js_lookup validationRules f = Own rules \<longrightarrow>
        (\<forall>k<length rules. (\<forall>i<k. (rules ! i) v = []) \<and> (rules ! k) v \<noteq> [] \<longrightarrow>
            validateField_run validationRules f v = Inr ((rules ! k) v, Suc k))
        \<and> (\<forall>pre r later later'. rules = pre @ r # later
              \<and> (\<forall>p \<in> set pre. p v = []) \<and> r v \<noteq> [] \<longrightarrow>
            validateField validationRules f v = Inr (r v)
            \<and> validateField ((f, pre @ r # later') # validationRules) f v = Inr (r v))
        \<and> ((\<forall>r \<in> set rules. r v = []) \<longrightarrow> validateField validationRules f v = Inr [])
        \<and> (\<forall>message later. rules = required_rule message # later
              \<and> message \<noteq> [] \<and> \<not> truthy v \<longrightarrow>
            validateField_run validationRules f v = Inr (message, 1)))"
proof (intro conjI allI impI)
  assume "js_lookup validationRules f = Absent"
  then show "validateField validationRules f v = Inr []" by (rule validateField_absent)
next
  assume "js_lookup validationRules f = Inherited"
  then show "validateField validationRules f v = Inl TypeError" by (rule validateField_inherited)
next
  fix rules k
  assume look: "js_lookup validationRules f = Own rules" and k: "k < length rules"
    and first: "(\<forall>i<k. (rules ! i) v = []) \<and> (rules ! k) v \<noteq> []"
  from k first have run: "run_rules rules v = ((rules ! k) v, Suc k)"
    by (simp add: run_rules_first)
  from look run show "validateField_run validationRules f v = Inr ((rules ! k) v, Suc k)"
    by (simp add: validateField_run_def)
next
  fix rules pre r later later'
  assume look: "js_lookup validationRules f = Own rules"
    and shape: "rules = pre @ r # later \<and> (\<forall>p \<in> set pre. p v = []) \<and> r v \<noteq> []"
  from shape have "run_rules (pre @ r # later) v = (r v, Suc (length pre))"
    by (simp add: run_rules_prefix)
  with look shape show "validateField validationRules f v = Inr (r v)"
    by (simp add: validateField_own)
  from shape have "run_rules (pre @ r # later') v = (r v, Suc (length pre))"
    by (simp add: run_rules_prefix)
  then show "validateField ((f, pre @ r # later') # validationRules) f v = Inr (r v)"
    by (simp add: validateField_def validateField_run_def js_lookup_def)
next
  fix rules
  assume look: "js_lookup validationRules f = Own rules" and "\<forall>r \<in> set rules. r v = []"
  then have "run_rules rules v = ([], length rules)"
    by (simp add: run_rules_all_empty)
  with look show "validateField validationRules f v = Inr []"
    by (simp add: validateField_own)
next
  fix rules message later
  assume look: "js_lookup validationRules f = Own rules"
    and shape: "rules = required_rule message # later \<and> message \<noteq> [] \<and> \<not> truthy v"
  then show "validateField_run validationRules f v = Inr (message, 1)"
    by (simp add: validateField_run_def required_rule_def Let_def)
qed

text \<open>
  C1. The claim holds of the code except in its first part: for a field name without an
  entry in \<open>validationRules\<close> that \<open>Object.prototype\<close> defines, \<open>validationRules[name]\<close> is
  the inherited value, the test \<open>if (!rules)\<close> lets it pass, and \<open>validateField\<close> throws a
  \<open>TypeError\<close> where the claim says it returns the empty string. Here \<open>validationRules\<close> is
  \<open>{ name: [required] }\<close> and the field names are \<open>constructor\<close> and \<open>toString\<close>.
\<close>

theorem validateField_inherited_name_throws:
  "map_of [(''name'', [required_rule ''req''])] ''constructor'' = None
   \<and> validateField [(''name'', [required_rule ''req''])] ''constructor'' (JStr ''x'')
       = Inl TypeError
   \<and> map_of [(''name'', [required_rule ''req''])] ''toString'' = None
   \<and> validateField [(''name'', [required_rule ''req''])] ''toString'' JUndefined
       = Inl TypeError"
  by (simp add: validateField_def validateField_run_def js_lookup_def proto_keys_def)

subsection \<open>handleChange\<close>

lemma extract_value_non_event: "\<not> is_event p \<Longrightarrow> extract_value p = Inr p"
  by (simp add: extract_value_def)

lemma extract_value_event:
  "map_of ev ''target'' = Some (JObj tg) \<Longrightarrow>
   extract_value (JObj ev) =
     Inr (case map_of tg ''type'' of
            Some ty \<Rightarrow>
              if ty = JStr ''checkbox''
              then (case map_of tg ''checked'' of Some c \<Rightarrow> c | None \<Rightarrow> JUndefined)
              else if ty = JStr ''file''
              then (case map_of tg ''files'' of Some fs \<Rightarrow> fs | None \<Rightarrow> JUndefined)
              else (case map_of tg ''value'' of Some x \<Rightarrow> x | None \<Rightarrow> JUndefined)
          | None \<Rightarrow> (case map_of tg ''value'' of Some x \<Rightarrow> x | None \<Rightarrow> JUndefined))"
  by (auto simp: extract_value_def is_event_def split: option.splits)

lemma extract_value_throws:
  "extract_value p = Inl err \<longleftrightarrow>
     err = TypeError \<and> (\<exists>ev. p = JObj ev \<and>
        (map_of ev ''target'' = Some JUndefined \<or> map_of ev ''target'' = Some JNull))"
proof (cases p)
  case (JObj ev)
  show ?thesis
  proof (cases "map_of ev ''target''")
    case None
    with JObj show ?thesis by (simp add: extract_value_def is_event_def)
  next
    case (Some target)
    with JObj show ?thesis
      by (cases target) (auto simp: extract_value_def is_event_def split: option.splits)
  qed
qed (simp_all add: extract_value_def is_event_def)

lemma handleChange_returns:
  "extract_value p = Inr v \<Longrightarrow> validateField R f v = Inr m \<Longrightarrow>
   handleChange R f p s =
     Inr (s\<lparr>values' := AList.update f v (values' s),
            touched := AList.update f True (touched s),
            isDirty := True,
            errors := AList.update f m (errors s)\<rparr>)"
  by (simp add: handleChange_def)

lemma handleChange_throws_validating:
  "extract_value p = Inr v \<Longrightarrow> validateField R f v = Inl err \<Longrightarrow>
   handleChange R f p s =
     Inl (err, s\<lparr>values' := AList.update f v (values' s),
                 touched := AList.update f True (touched s),
                 isDirty := True\<rparr>)"
  by (simp add: handleChange_def)

lemma handleChange_throws_extracting:
  "extract_value p = Inl err \<Longrightarrow> handleChange R f p s = Inl (err, s)"
  by (simp add: handleChange_def)

text \<open>
  What \<open>handleChange\<close> does for a field name on which \<open>validateField\<close> returns (a name with
  rules of its own, or one that \<open>Object.prototype\<close> does not define): the extracted value
  is the target's \<open>checked\<close> for a checkbox target, the target's \<open>files\<close> for a file target,
  the target's \<open>value\<close> for every other target, and the payload itself when the payload is
  not an event; then \<open>values[f]\<close>, \<open>touched[f]\<close>, \<open>isDirty\<close> and \<open>errors[f]\<close> are written.
\<close>

lemma handleChange_sets_field:
  "(\<forall>ev tg. p = JObj ev \<and> map_of ev ''target'' = Some (JObj tg) \<longrightarrow>
      extract_value p =
        Inr (case map_of tg ''type'' of
               Some ty \<Rightarrow>
                 if ty = JStr ''checkbox''
                 then (case map_of tg ''checked'' of Some c \<Rightarrow> c | None \<Rightarrow> JUndefined)
                 else if ty = JStr ''file''
                 then (case map_of tg ''files'' of Some fs \<Rightarrow> fs | None \<Rightarrow> JUndefined)
                 else (case map_of tg ''value'' of Some x \<Rightarrow> x | None \<Rightarrow> JUndefined)
             | None \<Rightarrow> (case map_of tg ''value'' of Some x \<Rightarrow> x | None \<Rightarrow> JUndefined)))
   \<and> (\<not> is_event p \<longrightarrow> extract_value p = Inr p)
   \<and> (\<forall>v m. extract_value p = Inr v \<and> validateField validationRules f v = Inr m \<longrightarrow>
        (\<exists>s'. handleChange validationRules f p s = Inr s'
           \<and> map_of (values' s') f = Some v
           \<and> map_of (touched s') f = Some True
           \<and> isDirty s'
           \<and> map_of (errors s') f = Some m
           \<and> isSubmitting s' = isSubmitting s
           \<and> (\<forall>g. g \<noteq> f \<longrightarrow> map_of (values' s') g = map_of (values' s) g
                  \<and> map_of (touched s') g = map_of (touched s) g
                  \<and> map_of (errors s') g = map_of (errors s) g)))"
  by (auto simp: extract_value_non_event extract_value_event handleChange_returns update_conv')

text \<open>
  C3. The claim holds of the code except for a field name without rules that
  \<open>Object.prototype\<close> defines. There \<open>handleChange(f)\<close> writes \<open>values[f]\<close>, \<open>touched[f]\<close>
  and \<open>isDirty\<close>, then \<open>validateField\<close> throws a \<open>TypeError\<close>, and \<open>errors[f]\<close> is never
  written, where the claim says \<open>errors[f] = validateField(f, value)\<close> is set. Here
  \<open>validationRules\<close> is \<open>{ name: [required] }\<close>, the state is that of the first render with
  \<open>values = { name: "" }\<close>, and the call is \<open>handleChange("constructor")("x")\<close>.
\<close>

theorem handleChange_inherited_name_throws:
  "map_of [(''name'', [required_rule ''req''])] ''constructor'' = None
   \<and> extract_value (JStr ''x'') = Inr (JStr ''x'')
   \<and> handleChange [(''name'', [required_rule ''req''])] ''constructor'' (JStr ''x'')
        (initial_state [(''name'', JStr [])])
      = Inl (TypeError,
             \<lparr>values' = [(''name'', JStr []), (''constructor'', JStr ''x'')], errors = [],
              touched = [(''constructor'', True)], isSubmitting = False, isDirty = True\<rparr>)
   \<and> map_of (errors (state_after
        (handleChange [(''name'', [required_rule ''req''])] ''constructor'' (JStr ''x'')
           (initial_state [(''name'', JStr [])])))) ''constructor'' = None"
  by (simp add: handleChange_def extract_value_def is_event_def initial_state_def
      validateField_def validateField_run_def js_lookup_def proto_keys_def state_after_def)

subsection \<open>validateAll\<close>

lemma validateAll_loop_own:
  "set names \<subseteq> fst ` set R \<Longrightarrow>
   \<exists>E T. validateAll_loop R vs names (E0, T0) = Inr (E, T)
     \<and> (\<forall>f. map_of T f = (if f \<in> set names then Some True else map_of T0 f))
     \<and> (\<forall>f m. validateField R f (get_value vs f) = Inr m \<longrightarrow>
           map_of E f = (if f \<in> set names \<and> m \<noteq> [] then Some m else map_of E0 f))"
proof (induction names arbitrary: E0 T0)
  case Nil
  then show ?case by simp
next
  case (Cons n ns)
  from Cons.prems have "n \<in> fst ` set R" by simp
  then obtain m where m: "validateField R n (get_value vs n) = Inr m"
    using validateField_registered by blast
  define E1 where "E1 = (if m \<noteq> [] then AList.update n m E0 else E0)"
  define T1 where "T1 = AList.update n True T0"
  from Cons.prems have "set ns \<subseteq> fst ` set R" by simp
  from Cons.IH [OF this, of E1 T1] obtain E T where
    run: "validateAll_loop R vs ns (E1, T1) = Inr (E, T)"
    and tt: "\<forall>f. map_of T f = (if f \<in> set ns then Some True else map_of T1 f)"
    and ee: "\<forall>f m'. validateField R f (get_value vs f) = Inr m' \<longrightarrow>
           map_of E f = (if f \<in> set ns \<and> m' \<noteq> [] then Some m' else map_of E1 f)"
    by blast
  have step: "validateAll_loop R vs (n # ns) (E0, T0) = Inr (E, T)"
    using m run by (simp add: E1_def T1_def)
  have t': "\<forall>f. map_of T f = (if f \<in> set (n # ns) then Some True else map_of T0 f)"
    using tt by (simp add: T1_def update_conv')
  have e': "\<forall>f m'. validateField R f (get_value vs f) = Inr m' \<longrightarrow>
           map_of E f = (if f \<in> set (n # ns) \<and> m' \<noteq> [] then Some m' else map_of E0 f)"
  proof (intro allI impI)
    fix f m'
    assume vf: "validateField R f (get_value vs f) = Inr m'"
    with ee have base: "map_of E f = (if f \<in> set ns \<and> m' \<noteq> [] then Some m' else map_of E1 f)"
      by blast
    show "map_of E f = (if f \<in> set (n # ns) \<and> m' \<noteq> [] then Some m' else map_of E0 f)"
    proof (cases "f = n")
      case True
      with vf m have "m' = m" by simp
      with True base show ?thesis by (simp add: E1_def update_conv')
    next
      case False
      with base show ?thesis by (simp add: E1_def update_conv')
    qed
  qed
  from step t' e' show ?case by blast
qed

text \<open>
  \<open>validateAll\<close> never throws: it calls \<open>validateField\<close> on the own keys of
  \<open>validationRules\<close> only.
\<close>

lemma validateAll_returns:
  "\<exists>ok s'. validateAll R s = Inr (ok, s')
     \<and> ok = (errors s' = [])
     \<and> values' s' = values' s \<and> isSubmitting s' = isSubmitting s \<and> isDirty s' = isDirty s
     \<and> (\<forall>f. map_of (touched s') f = (if f \<in> fst ` set R then Some True else None))
     \<and> (\<forall>f m. validateField R f (get_value (values' s) f) = Inr m \<longrightarrow>
           map_of (errors s') f = (if f \<in> fst ` set R \<and> m \<noteq> [] then Some m else None))"
proof -
  have "set (map fst R) \<subseteq> fst ` set R" by simp
  from validateAll_loop_own [OF this, of "values' s" "[]" "[]"] obtain E T where
    run: "validateAll_loop R (values' s) (map fst R) ([], []) = Inr (E, T)"
    and tt: "\<forall>f. map_of T f = (if f \<in> set (map fst R) then Some True else map_of [] f)"
    and ee: "\<forall>f m. validateField R f (get_value (values' s) f) = Inr m \<longrightarrow>
           map_of E f = (if f \<in> set (map fst R) \<and> m \<noteq> [] then Some m else map_of [] f)"
    by blast
  from run have "validateAll R s = Inr (E = [], s\<lparr>touched := T, errors := E\<rparr>)"
    by (simp add: validateAll_def)
  with tt ee show ?thesis by simp
qed

lemma validateAll_unregistered_errors:
  assumes run: "validateAll R s = Inr (ok, s')" and unreg: "f \<notin> fst ` set R"
  shows "map_of (errors s') f = None"
proof -
  have keys: "set (map fst R) \<subseteq> fst ` set R" by simp
  have "\<And>names E0 T0 E T. set names \<subseteq> fst ` set R \<Longrightarrow>
      validateAll_loop R (values' s) names (E0, T0) = Inr (E, T) \<Longrightarrow> map_of E f = map_of E0 f"
  proof -
    fix names E0 T0 E T
    show "set names \<subseteq> fst ` set R \<Longrightarrow>
      validateAll_loop R (values' s) names (E0, T0) = Inr (E, T) \<Longrightarrow> map_of E f = map_of E0 f"
    proof (induction names arbitrary: E0 T0)
      case Nil
      then show ?case by simp
    next
      case (Cons n ns)
      from Cons.prems unreg have ne: "f \<noteq> n" by auto
      from Cons.prems obtain m where m: "validateField R n (get_value (values' s) n) = Inr m"
        using validateField_registered [of n R] by auto
      from Cons.prems m have
        "validateAll_loop R (values' s) ns
           (if m \<noteq> [] then AList.update n m E0 else E0, AList.update n True T0) = Inr (E, T)"
        by simp
      with Cons.IH [of "if m \<noteq> [] then AList.update n m E0 else E0" "AList.update n True T0"]
        Cons.prems
      have "map_of E f = map_of (if m \<noteq> [] then AList.update n m E0 else E0) f" by simp
      with ne show ?case by (simp add: update_conv')
    qed
  qed
  from this [OF keys, of "[]" "[]"] run show ?thesis
    by (auto simp: validateAll_def split: sum.splits prod.splits)
qed

lemma validateAll_has_error:
  assumes run: "validateAll R s = Inr (ok, s')"
  shows "has_error (errors s') f
     = (f \<in> fst ` set R \<and> validateField R f (get_value (values' s) f) \<noteq> Inr [])"
proof (cases "f \<in> fst ` set R")
  case False
  with validateAll_unregistered_errors [OF run] show ?thesis by (simp add: has_error_def)
next
  case True
  then obtain m where m: "validateField R f (get_value (values' s) f) = Inr m"
    using validateField_registered by blast
  from validateAll_returns [of R s] run m True
  have "map_of (errors s') f = (if m \<noteq> [] then Some m else None)" by auto
  with True m show ?thesis by (simp add: has_error_def)
qed

lemma validateAll_true_iff:
  assumes run: "validateAll R s = Inr (ok, s')"
  shows "ok = (\<forall>f. \<not> has_error (errors s') f)"
proof (cases "errors s'")
  case Nil
  with validateAll_returns [of R s] run show ?thesis by (auto simp: has_error_def)
next
  case (Cons p es)
  obtain k e where p: "p = (k, e)" by (cases p)
  with Cons have look: "map_of (errors s') k = Some e" by simp
  have "e \<noteq> []"
  proof (cases "k \<in> fst ` set R")
    case False
    with validateAll_unregistered_errors [OF run] look show ?thesis by simp
  next
    case True
    then obtain m where m: "validateField R k (get_value (values' s) k) = Inr m"
      using validateField_registered by blast
    from validateAll_returns [of R s] run m True
    have "map_of (errors s') k = (if m \<noteq> [] then Some m else None)" by auto
    with look show ?thesis by (auto split: if_splits)
  qed
  with look have "has_error (errors s') k" by (simp add: has_error_def)
  moreover from validateAll_returns [of R s] run Cons have "\<not> ok" by auto
  ultimately show ?thesis by auto
qed

lemma validateAll_ignores_touched_errors:
  "validateAll R (s\<lparr>touched := t, errors := es\<rparr>) = validateAll R s"
  by (simp add: validateAll_def split: sum.splits prod.splits)

lemma validateAll_isSubmitting:
  "validateAll R s = Inr (ok, s') \<Longrightarrow>
   validateAll R (s\<lparr>isSubmitting := b\<rparr>) = Inr (ok, s'\<lparr>isSubmitting := b\<rparr>)"
  by (auto simp: validateAll_def split: sum.splits prod.splits)

text \<open>
  C4. \<open>validateAll()\<close> returns (it never throws), sets \<open>touched[f] = true\<close> for every field
  \<open>f\<close> of \<open>validationRules\<close>, whatever \<open>touched\<close> was, and recomputes the error of every such
  field from the current value: \<open>validateField(f, values[f])\<close> returns a message, \<open>errors\<close>
  has a non-empty entry for \<open>f\<close> exactly when that message is non-empty, and the entry is
  then that message. It returns true if and only if no entry of the new \<open>errors\<close> is
  non-empty, that is, it returns false if and only if the rules of at least one registered
  field produce a non-empty message.
\<close>

theorem validateAll_marks_and_decides:
  "\<exists>ok s'. validateAll validationRules s = Inr (ok, s')
   \<and> (\<forall>f \<in> fst ` set validationRules.
        map_of (touched s') f = Some True
      \<and> (\<exists>m. validateField validationRules f (get_value (values' s) f) = Inr m
            \<and> has_error (errors s') f = (m \<noteq> [])
            \<and> (has_error (errors s') f \<longrightarrow> map_of (errors s') f = Some m)))
   \<and> ok = (\<forall>f. \<not> has_error (errors s') f)
   \<and> (\<not> ok)
       = (\<exists>f \<in> fst ` set validationRules. \<exists>m.
            validateField validationRules f (get_value (values' s) f) = Inr m \<and> m \<noteq> [])"
proof -
  from validateAll_returns [of validationRules s] obtain ok s' where
    run: "validateAll validationRules s = Inr (ok, s')"
    and tt: "\<forall>f. map_of (touched s') f
                = (if f \<in> fst ` set validationRules then Some True else None)"
    and ee: "\<forall>f m. validateField validationRules f (get_value (values' s) f) = Inr m \<longrightarrow>
           map_of (errors s') f
             = (if f \<in> fst ` set validationRules \<and> m \<noteq> [] then Some m else None)"
    by blast
  have fields: "\<forall>f \<in> fst ` set validationRules.
        map_of (touched s') f = Some True
      \<and> (\<exists>m. validateField validationRules f (get_value (values' s) f) = Inr m
            \<and> has_error (errors s') f = (m \<noteq> [])
            \<and> (has_error (errors s') f \<longrightarrow> map_of (errors s') f = Some m))"
  proof
    fix f
    assume reg: "f \<in> fst ` set validationRules"
    then obtain m where m: "validateField validationRules f (get_value (values' s) f) = Inr m"
      using validateField_registered by blast
    with ee reg have look: "map_of (errors s') f = (if m \<noteq> [] then Some m else None)"
      by simp
    from reg tt have "map_of (touched s') f = Some True" by simp
    moreover from look have "has_error (errors s') f = (m \<noteq> [])"
      by (simp add: has_error_def)
    moreover from look have "has_error (errors s') f \<longrightarrow> map_of (errors s') f = Some m"
      by (simp add: has_error_def)
    ultimately show "map_of (touched s') f = Some True
      \<and> (\<exists>m. validateField validationRules f (get_value (values' s) f) = Inr m
            \<and> has_error (errors s') f = (m \<noteq> [])
            \<and> (has_error (errors s') f \<longrightarrow> map_of (errors s') f = Some m))"
      using m by blast
  qed
  have decide: "ok = (\<forall>f. \<not> has_error (errors s') f)"
    using run by (rule validateAll_true_iff)
  have "(\<not> ok) = (\<exists>f. has_error (errors s') f)"
    using decide by simp
  also have "\<dots> = (\<exists>f \<in> fst ` set validationRules.
      validateField validationRules f (get_value (values' s) f) \<noteq> Inr [])"
    using validateAll_has_error [OF run] by auto
  also have "\<dots> = (\<exists>f \<in> fst ` set validationRules. \<exists>m.
            validateField validationRules f (get_value (values' s) f) = Inr m \<and> m \<noteq> [])"
  proof -
    have "validateField validationRules f (get_value (values' s) f) \<noteq> Inr []
        \<longleftrightarrow> (\<exists>m. validateField validationRules f (get_value (values' s) f) = Inr m \<and> m \<noteq> [])"
      if "f \<in> fst ` set validationRules" for f
      using validateField_registered [OF that, of "get_value (values' s) f"] by auto
    then show ?thesis by blast
  qed
  finally have failing: "(\<not> ok)
       = (\<exists>f \<in> fst ` set validationRules. \<exists>m.
            validateField validationRules f (get_value (values' s) f) = Inr m \<and> m \<noteq> [])" .
  from run fields decide failing show ?thesis by blast
qed

theorem validateAll_marks_and_decides_witness:
  "''terms'' \<in> fst ` set [(''name'', [required_rule ''req'']), (''terms'', [required_rule ''accept''])]
   \<and> validateAll [(''name'', [required_rule ''req'']), (''terms'', [required_rule ''accept''])]
       \<lparr>values' = [(''name'', JStr ''Jo''), (''terms'', JBool False), (''bio'', JStr ''hi'')],
        errors = [(''bio'', ''stale'')], touched = [(''bio'', True)],
        isSubmitting = False, isDirty = True\<rparr>
     = Inr (False,
        \<lparr>values' = [(''name'', JStr ''Jo''), (''terms'', JBool False), (''bio'', JStr ''hi'')],
         errors = [(''terms'', ''accept'')], touched = [(''name'', True), (''terms'', True)],
         isSubmitting = False, isDirty = True\<rparr>)
   \<and> map_of [(''name'', True), (''terms'', True)] ''terms'' = Some True
   \<and> validateField [(''name'', [required_rule ''req'']), (''terms'', [required_rule ''accept''])]
        ''terms''
        (get_value [(''name'', JStr ''Jo''), (''terms'', JBool False), (''bio'', JStr ''hi'')]
           ''terms'') = Inr ''accept''
   \<and> has_error [(''terms'', ''accept'')] ''terms''
   \<and> map_of [(''terms'', ''accept'')] ''terms'' = Some ''accept''"
  using validateAll_marks_and_decides
    [of "[(''name'', [required_rule ''req'']), (''terms'', [required_rule ''accept''])]"
        "\<lparr>values' = [(''name'', JStr ''Jo''), (''terms'', JBool False), (''bio'', JStr ''hi'')],
          errors = [(''bio'', ''stale'')], touched = [(''bio'', True)],
          isSubmitting = False, isDirty = True\<rparr>"]
  by (simp add: validateAll_def has_error_def validateField_def validateField_run_def
      js_lookup_def required_rule_def get_value_def)

subsection \<open>handleSubmit\<close>

lemma handleSubmit_valid_fulfilled:
  "validateAll R s = Inr (True, s2) \<Longrightarrow>
   cb (values' s) (s2\<lparr>isSubmitting := True\<rparr>) = (Fulfilled, s3) \<Longrightarrow>
   handleSubmit R cb e s =
     \<lparr>promise = Fulfilled, after = s3\<lparr>isSubmitting := False\<rparr>,
      effects = (if e then [PreventDefault] else [])
                @ [SetIsSubmitting True, OnSubmit (values' s), SetIsSubmitting False]\<rparr>"
  using validateAll_isSubmitting [of R s True s2 True]
  by (simp add: handleSubmit_def Let_def)

lemma handleSubmit_valid_rejected:
  "validateAll R s = Inr (True, s2) \<Longrightarrow>
   cb (values' s) (s2\<lparr>isSubmitting := True\<rparr>) = (Rejected err, s3) \<Longrightarrow>
   handleSubmit R cb e s =
     \<lparr>promise = Fulfilled, after = s3\<lparr>isSubmitting := False\<rparr>,
      effects = (if e then [PreventDefault] else [])
                @ [SetIsSubmitting True, OnSubmit (values' s), ConsoleError err,
                   SetIsSubmitting False]\<rparr>"
  using validateAll_isSubmitting [of R s True s2 True]
  by (simp add: handleSubmit_def Let_def)

lemma handleSubmit_invalid:
  "validateAll R s = Inr (False, s2) \<Longrightarrow>
   handleSubmit R cb e s =
     \<lparr>promise = Fulfilled, after = s2\<lparr>isSubmitting := False\<rparr>,
      effects = (if e then [PreventDefault] else [])
                @ [SetIsSubmitting True, ScheduleFocusFirstError, SetIsSubmitting False]\<rparr>"
  using validateAll_isSubmitting [of R s False s2 True]
  by (simp add: handleSubmit_def Let_def)

lemma handleSubmit_cases:
  obtains
    (invalid) s2 where "validateAll R s = Inr (False, s2)"
  | (fulfilled) s2 s3 where "validateAll R s = Inr (True, s2)"
      "cb (values' s) (s2\<lparr>isSubmitting := True\<rparr>) = (Fulfilled, s3)"
  | (rejected) s2 err s3 where "validateAll R s = Inr (True, s2)"
      "cb (values' s) (s2\<lparr>isSubmitting := True\<rparr>) = (Rejected err, s3)"
proof -
  from validateAll_returns [of R s] obtain ok s2 where run: "validateAll R s = Inr (ok, s2)"
    by blast
  show ?thesis
  proof (cases ok)
    case False
    with run show ?thesis by (auto intro: invalid)
  next
    case True
    obtain r s3 where cb: "cb (values' s) (s2\<lparr>isSubmitting := True\<rparr>) = (r, s3)"
      by (cases "cb (values' s) (s2\<lparr>isSubmitting := True\<rparr>)")
    show ?thesis
    proof (cases r)
      case Fulfilled
      with True run cb show ?thesis by (auto intro: fulfilled)
    next
      case (Rejected err)
      with True run cb show ?thesis by (auto intro: rejected)
    qed
  qed
qed

lemma handleSubmit_onSubmit_calls:
  "validateAll R s = Inr (ok, s2) \<Longrightarrow>
   onSubmit_calls (effects (handleSubmit R cb e s)) = (if ok then [values' s] else [])"
  by (cases rule: handleSubmit_cases [where R=R and s=s and cb=cb])
     (auto simp: handleSubmit_invalid handleSubmit_valid_fulfilled handleSubmit_valid_rejected)

lemma handleSubmit_isSubmitting_writes:
  "isSubmitting_writes (effects (handleSubmit R cb e s)) = [True, False]"
  by (cases rule: handleSubmit_cases [where R=R and s=s and cb=cb])
     (simp_all add: handleSubmit_invalid handleSubmit_valid_fulfilled handleSubmit_valid_rejected)

lemma handleSubmit_promise: "promise (handleSubmit R cb e s) = Fulfilled"
  by (cases rule: handleSubmit_cases [where R=R and s=s and cb=cb])
     (simp_all add: handleSubmit_invalid handleSubmit_valid_fulfilled handleSubmit_valid_rejected)

lemma handleSubmit_after:
  "validateAll R s = Inr (ok, s2) \<Longrightarrow>
   after (handleSubmit R cb e s) =
     (if ok
      then (snd (cb (values' s) (s2\<lparr>isSubmitting := True\<rparr>)))\<lparr>isSubmitting := False\<rparr>
      else s2\<lparr>isSubmitting := False\<rparr>)"
  by (cases rule: handleSubmit_cases [where R=R and s=s and cb=cb])
     (auto simp: handleSubmit_invalid handleSubmit_valid_fulfilled handleSubmit_valid_rejected)

lemma handleSubmit_not_submitting: "\<not> isSubmitting (after (handleSubmit R cb e s))"
  by (cases rule: handleSubmit_cases [where R=R and s=s and cb=cb])
     (simp_all add: handleSubmit_invalid handleSubmit_valid_fulfilled handleSubmit_valid_rejected)

lemma handleSubmit_after_quiet:
  "validateAll R s = Inr (ok, s2) \<Longrightarrow>
   after (handleSubmit R (\<lambda>vs st. (res, st)) e s) = s2\<lparr>isSubmitting := False\<rparr>"
  by (simp add: handleSubmit_after)

text \<open>
  C2. The handler calls \<open>onSubmit\<close> if and only if \<open>validateAll()\<close> returns true, and then
  once, with the \<open>values\<close> of the state the handler started in. It writes \<open>true\<close> and then
  \<open>false\<close> to \<open>isSubmitting\<close>, so from \<open>false\<close> the flag goes \<open>false \<rightarrow> true \<rightarrow> false\<close>; the
  callback runs in a state where the flag is \<open>true\<close>, and it is \<open>false\<close> at the end. The
  handler itself never resets: what it leaves is the state the callback left (or, for an
  invalid form, the validated state) with \<open>isSubmitting = false\<close>, so with a callback that
  leaves the state alone \<open>values\<close> and \<open>isDirty\<close> are those at the start, and a dirty form is
  not in a reset state afterwards.
\<close>

theorem handleSubmit_calls_onSubmit_iff_valid:
  "\<exists>ok s2. validateAll validationRules s = Inr (ok, s2)
   \<and> (onSubmit_calls (effects (handleSubmit validationRules onSubmit e s)) \<noteq> []) = ok
   \<and> (ok \<longrightarrow>
        onSubmit_calls (effects (handleSubmit validationRules onSubmit e s)) = [values' s])
   \<and> isSubmitting_writes (effects (handleSubmit validationRules onSubmit e s)) = [True, False]
   \<and> (\<not> isSubmitting s \<longrightarrow>
        isSubmitting s # isSubmitting_writes (effects (handleSubmit validationRules onSubmit e s))
          = [False, True, False])
   \<and> isSubmitting (s2\<lparr>isSubmitting := True\<rparr>)
   \<and> \<not> isSubmitting (after (handleSubmit validationRules onSubmit e s))
   \<and> after (handleSubmit validationRules onSubmit e s) =
       (if ok
        then (snd (onSubmit (values' s) (s2\<lparr>isSubmitting := True\<rparr>)))\<lparr>isSubmitting := False\<rparr>
        else s2\<lparr>isSubmitting := False\<rparr>)
   \<and> (\<forall>res. values' (after (handleSubmit validationRules (\<lambda>vs st. (res, st)) e s)) = values' s
        \<and> isDirty (after (handleSubmit validationRules (\<lambda>vs st. (res, st)) e s)) = isDirty s
        \<and> (isDirty s \<longrightarrow> (\<forall>initialValues t.
              after (handleSubmit validationRules (\<lambda>vs st. (res, st)) e s)
                \<noteq> reset initialValues t)))"
proof -
  from validateAll_returns [of validationRules s] obtain ok s2 where
    run: "validateAll validationRules s = Inr (ok, s2)"
    and vals: "values' s2 = values' s" and dirty: "isDirty s2 = isDirty s"
    by blast
  have calls: "(onSubmit_calls (effects (handleSubmit validationRules onSubmit e s)) \<noteq> []) = ok"
    using run by (simp add: handleSubmit_onSubmit_calls)
  have once: "ok \<longrightarrow>
        onSubmit_calls (effects (handleSubmit validationRules onSubmit e s)) = [values' s]"
    using run by (simp add: handleSubmit_onSubmit_calls)
  have writes: "isSubmitting_writes (effects (handleSubmit validationRules onSubmit e s))
      = [True, False]"
    by (rule handleSubmit_isSubmitting_writes)
  have seq: "\<not> isSubmitting s \<longrightarrow>
        isSubmitting s # isSubmitting_writes (effects (handleSubmit validationRules onSubmit e s))
          = [False, True, False]"
    by (simp add: handleSubmit_isSubmitting_writes)
  have during: "isSubmitting (s2\<lparr>isSubmitting := True\<rparr>)"
    by simp
  have ended: "\<not> isSubmitting (after (handleSubmit validationRules onSubmit e s))"
    by (rule handleSubmit_not_submitting)
  have final: "after (handleSubmit validationRules onSubmit e s) =
       (if ok
        then (snd (onSubmit (values' s) (s2\<lparr>isSubmitting := True\<rparr>)))\<lparr>isSubmitting := False\<rparr>
        else s2\<lparr>isSubmitting := False\<rparr>)"
    using run by (rule handleSubmit_after)
  have quiet: "\<forall>res. values' (after (handleSubmit validationRules (\<lambda>vs st. (res, st)) e s)) = values' s
        \<and> isDirty (after (handleSubmit validationRules (\<lambda>vs st. (res, st)) e s)) = isDirty s
        \<and> (isDirty s \<longrightarrow> (\<forall>initialValues t.
              after (handleSubmit validationRules (\<lambda>vs st. (res, st)) e s)
                \<noteq> reset initialValues t))"
  proof (intro allI conjI impI)
    fix res
    show "values' (after (handleSubmit validationRules (\<lambda>vs st. (res, st)) e s)) = values' s"
      using run vals by (simp add: handleSubmit_after_quiet)
    show "isDirty (after (handleSubmit validationRules (\<lambda>vs st. (res, st)) e s)) = isDirty s"
      using run dirty by (simp add: handleSubmit_after_quiet)
  next
    fix res initialValues t
    assume d: "isDirty s"
    have "isDirty (after (handleSubmit validationRules (\<lambda>vs st. (res, st)) e s))"
      using run dirty d by (simp add: handleSubmit_after_quiet)
    moreover have "\<not> isDirty (reset initialValues t)" by (simp add: reset_def)
    ultimately show "after (handleSubmit validationRules (\<lambda>vs st. (res, st)) e s)
                \<noteq> reset initialValues t"
      by auto
  qed
  show ?thesis
    by (intro exI conjI) (rule run, rule calls, rule once, rule writes, rule seq, rule during,
        rule ended, rule final, rule quiet)
qed

theorem handleSubmit_calls_onSubmit_iff_valid_witness:
  "validateAll [(''name'', [required_rule ''req'']), (''terms'', [required_rule ''accept''])]
       \<lparr>values' = [(''name'', JStr ''Jo''), (''terms'', JBool True)],
        errors = [(''name'', ''taken'')], touched = [(''name'', True)],
        isSubmitting = False, isDirty = True\<rparr>
     = Inr (True,
        \<lparr>values' = [(''name'', JStr ''Jo''), (''terms'', JBool True)],
         errors = [], touched = [(''name'', True), (''terms'', True)],
         isSubmitting = False, isDirty = True\<rparr>)
   \<and> handleSubmit [(''name'', [required_rule ''req'']), (''terms'', [required_rule ''accept''])]
       (\<lambda>vs st. (Fulfilled, st)) True
       \<lparr>values' = [(''name'', JStr ''Jo''), (''terms'', JBool True)],
        errors = [(''name'', ''taken'')], touched = [(''name'', True)],
        isSubmitting = False, isDirty = True\<rparr>
     = \<lparr>promise = Fulfilled,
        after = \<lparr>values' = [(''name'', JStr ''Jo''), (''terms'', JBool True)],
                 errors = [], touched = [(''name'', True), (''terms'', True)],
                 isSubmitting = False, isDirty = True\<rparr>,
        effects = [PreventDefault, SetIsSubmitting True,
                   OnSubmit [(''name'', JStr ''Jo''), (''terms'', JBool True)],
                   SetIsSubmitting False]\<rparr>
   \<and> onSubmit_calls (effects (handleSubmit
         [(''name'', [required_rule ''req'']), (''terms'', [required_rule ''accept''])]
         (\<lambda>vs st. (Fulfilled, st)) True
         \<lparr>values' = [(''name'', JStr ''Jo''), (''terms'', JBool True)],
          errors = [(''name'', ''taken'')], touched = [(''name'', True)],
          isSubmitting = False, isDirty = True\<rparr>))
       = [[(''name'', JStr ''Jo''), (''terms'', JBool True)]]
   \<and> \<not> isSubmitting
         \<lparr>values' = [(''name'', JStr ''Jo''), (''terms'', JBool True)],
          errors = [(''name'', ''taken'')], touched = [(''name'', True)],
          isSubmitting = False, isDirty = True\<rparr>
   \<and> isSubmitting
         \<lparr>values' = [(''name'', JStr ''Jo''), (''terms'', JBool True)],
          errors = [(''name'', ''taken'')], touched = [(''name'', True)],
          isSubmitting = False, isDirty = True\<rparr>
       # isSubmitting_writes (effects (handleSubmit
         [(''name'', [required_rule ''req'']), (''terms'', [required_rule ''accept''])]
         (\<lambda>vs st. (Fulfilled, st)) True
         \<lparr>values' = [(''name'', JStr ''Jo''), (''terms'', JBool True)],
          errors = [(''name'', ''taken'')], touched = [(''name'', True)],
          isSubmitting = False, isDirty = True\<rparr>))
       = [False, True, False]
   \<and> isDirty
         \<lparr>values' = [(''name'', JStr ''Jo''), (''terms'', JBool True)],
          errors = [(''name'', ''taken'')], touched = [(''name'', True)],
          isSubmitting = False, isDirty = True\<rparr>
   \<and> after (handleSubmit
         [(''name'', [required_rule ''req'']), (''terms'', [required_rule ''accept''])]
         (\<lambda>vs st. (Fulfilled, st)) True
         \<lparr>values' = [(''name'', JStr ''Jo''), (''terms'', JBool True)],
          errors = [(''name'', ''taken'')], touched = [(''name'', True)],
          isSubmitting = False, isDirty = True\<rparr>)
       \<noteq> reset [(''name'', JStr []), (''terms'', JBool False)]
           \<lparr>values' = [(''name'', JStr ''Jo''), (''terms'', JBool True)],
            errors = [(''name'', ''taken'')], touched = [(''name'', True)],
            isSubmitting = False, isDirty = True\<rparr>"
  using handleSubmit_calls_onSubmit_iff_valid
    [of "[(''name'', [required_rule ''req'']), (''terms'', [required_rule ''accept''])]"
        "\<lparr>values' = [(''name'', JStr ''Jo''), (''terms'', JBool True)],
          errors = [(''name'', ''taken'')], touched = [(''name'', True)],
          isSubmitting = False, isDirty = True\<rparr>"
        "\<lambda>vs st. (Fulfilled, st)" True]
  by (simp add: handleSubmit_def reset_def validateAll_def validateField_def
      validateField_run_def js_lookup_def required_rule_def get_value_def Let_def)

text \<open>
  C5. The promise of the handler is fulfilled whatever the callback does, and \<open>isSubmitting\<close>
  is \<open>false\<close> at the end. When the callback is called and rejects with \<open>err\<close>, the handler
  logs \<open>err\<close> and goes on to the last write of \<open>isSubmitting\<close>; it writes nothing else, so
  \<open>errors\<close> (like every cell but \<open>isSubmitting\<close>) is as the callback left it, and the final
  state is the one a fulfilled callback with the same effect on the state would give.
\<close>

theorem handleSubmit_swallows_failure:
  "promise (handleSubmit validationRules onSubmit e s) = Fulfilled
   \<and> \<not> isSubmitting (after (handleSubmit validationRules onSubmit e s))
   \<and> (\<exists>ok s2. validateAll validationRules s = Inr (ok, s2)
       \<and> (\<forall>err s3. ok
             \<and> onSubmit (values' s) (s2\<lparr>isSubmitting := True\<rparr>) = (Rejected err, s3) \<longrightarrow>
           effects (handleSubmit validationRules onSubmit e s)
             = (if e then [PreventDefault] else [])
               @ [SetIsSubmitting True, OnSubmit (values' s), ConsoleError err,
                  SetIsSubmitting False]
           \<and> after (handleSubmit validationRules onSubmit e s) = s3\<lparr>isSubmitting := False\<rparr>
           \<and> errors (after (handleSubmit validationRules onSubmit e s)) = errors s3
           \<and> after (handleSubmit validationRules onSubmit e s)
               = after (handleSubmit validationRules
                          (\<lambda>vs st. (Fulfilled, snd (onSubmit vs st))) e s)))"
proof -
  from validateAll_returns [of validationRules s] obtain ok s2 where
    run: "validateAll validationRules s = Inr (ok, s2)"
    by blast
  have rejected: "\<forall>err s3. ok
             \<and> onSubmit (values' s) (s2\<lparr>isSubmitting := True\<rparr>) = (Rejected err, s3) \<longrightarrow>
           effects (handleSubmit validationRules onSubmit e s)
             = (if e then [PreventDefault] else [])
               @ [SetIsSubmitting True, OnSubmit (values' s), ConsoleError err,
                  SetIsSubmitting False]
           \<and> after (handleSubmit validationRules onSubmit e s) = s3\<lparr>isSubmitting := False\<rparr>
           \<and> errors (after (handleSubmit validationRules onSubmit e s)) = errors s3
           \<and> after (handleSubmit validationRules onSubmit e s)
               = after (handleSubmit validationRules
                          (\<lambda>vs st. (Fulfilled, snd (onSubmit vs st))) e s)"
  proof (intro allI impI)
    fix err s3
    assume h: "ok \<and> onSubmit (values' s) (s2\<lparr>isSubmitting := True\<rparr>) = (Rejected err, s3)"
    with run have valid: "validateAll validationRules s = Inr (True, s2)" by simp
    from h have cb: "onSubmit (values' s) (s2\<lparr>isSubmitting := True\<rparr>) = (Rejected err, s3)"
      by simp
    have whole: "handleSubmit validationRules onSubmit e s =
       \<lparr>promise = Fulfilled, after = s3\<lparr>isSubmitting := False\<rparr>,
        effects = (if e then [PreventDefault] else [])
                  @ [SetIsSubmitting True, OnSubmit (values' s), ConsoleError err,
                     SetIsSubmitting False]\<rparr>"
      using valid cb by (rule handleSubmit_valid_rejected)
    have same: "after (handleSubmit validationRules
                          (\<lambda>vs st. (Fulfilled, snd (onSubmit vs st))) e s)
                  = s3\<lparr>isSubmitting := False\<rparr>"
      using valid cb by (simp add: handleSubmit_after)
    from whole same
    show "effects (handleSubmit validationRules onSubmit e s)
             = (if e then [PreventDefault] else [])
               @ [SetIsSubmitting True, OnSubmit (values' s), ConsoleError err,
                  SetIsSubmitting False]
           \<and> after (handleSubmit validationRules onSubmit e s) = s3\<lparr>isSubmitting := False\<rparr>
           \<and> errors (after (handleSubmit validationRules onSubmit e s)) = errors s3
           \<and> after (handleSubmit validationRules onSubmit e s)
               = after (handleSubmit validationRules
                          (\<lambda>vs st. (Fulfilled, snd (onSubmit vs st))) e s)"
      by simp
  qed
  show ?thesis
    by (intro conjI exI)
       (rule handleSubmit_promise, rule handleSubmit_not_submitting, rule run, rule rejected)
qed

theorem handleSubmit_swallows_failure_witness:
  "validateAll [(''name'', [required_rule ''req'']), (''terms'', [required_rule ''accept''])]
       \<lparr>values' = [(''name'', JStr ''Jo''), (''terms'', JBool True)],
        errors = [(''name'', ''taken'')], touched = [(''name'', True)],
        isSubmitting = False, isDirty = True\<rparr>
     = Inr (True,
        \<lparr>values' = [(''name'', JStr ''Jo''), (''terms'', JBool True)],
         errors = [], touched = [(''name'', True), (''terms'', True)],
         isSubmitting = False, isDirty = True\<rparr>)
   \<and> handleSubmit [(''name'', [required_rule ''req'']), (''terms'', [required_rule ''accept''])]
       (\<lambda>vs st. (Rejected (Thrown ''network''), st)) False
       \<lparr>values' = [(''name'', JStr ''Jo''), (''terms'', JBool True)],
        errors = [(''name'', ''taken'')], touched = [(''name'', True)],
        isSubmitting = False, isDirty = True\<rparr>
     = \<lparr>promise = Fulfilled,
        after = \<lparr>values' = [(''name'', JStr ''Jo''), (''terms'', JBool True)],
                 errors = [], touched = [(''name'', True), (''terms'', True)],
                 isSubmitting = False, isDirty = True\<rparr>,
        effects = [SetIsSubmitting True,
                   OnSubmit [(''name'', JStr ''Jo''), (''terms'', JBool True)],
                   ConsoleError (Thrown ''network''), SetIsSubmitting False]\<rparr>"
  using handleSubmit_swallows_failure
    [of "[(''name'', [required_rule ''req'']), (''terms'', [required_rule ''accept''])]"
        "\<lambda>vs st. (Rejected (Thrown ''network''), st)" False
        "\<lparr>values' = [(''name'', JStr ''Jo''), (''terms'', JBool True)],
          errors = [(''name'', ''taken'')], touched = [(''name'', True)],
          isSubmitting = False, isDirty = True\<rparr>"]
  by (simp add: handleSubmit_def validateAll_def validateField_def validateField_run_def
      js_lookup_def required_rule_def get_value_def Let_def)

subsection \<open>What validateAll discards\<close>

text \<open>
  C10. After \<open>validateAll()\<close> (which always returns) the keys of \<open>touched\<close> are exactly the
  fields of \<open>validationRules\<close>, each with the value \<open>true\<close>, and \<open>errors\<close> has an entry
  exactly for the registered fields whose rules fail on the current value, holding the
  message. The result does not depend on the \<open>touched\<close> and \<open>errors\<close> before the call, so a
  touched flag of a field without rules and every error stored before are gone. The same
  holds of the pass made inside \<open>handleSubmit\<close> (seen here through a callback that leaves
  the state alone).
\<close>

theorem validateAll_replaces_touched_and_errors:
  "\<exists>ok s'. validateAll validationRules s = Inr (ok, s')
   \<and> (\<forall>f. map_of (touched s') f
          = (if f \<in> fst ` set validationRules then Some True else None))
   \<and> fst ` set (touched s') = fst ` set validationRules
   \<and> (\<forall>f. map_of (errors s') f
          = (case validateField validationRules f (get_value (values' s) f) of
               Inr m \<Rightarrow> if f \<in> fst ` set validationRules \<and> m \<noteq> [] then Some m else None
             | Inl err \<Rightarrow> None))
   \<and> (\<forall>f \<in> fst ` set validationRules.
          \<exists>m. validateField validationRules f (get_value (values' s) f) = Inr m)
   \<and> (\<forall>t es. validateAll validationRules (s\<lparr>touched := t, errors := es\<rparr>)
          = validateAll validationRules s)
   \<and> (\<forall>name m. validateAll validationRules (setFieldError name m s)
          = validateAll validationRules s)
   \<and> (\<forall>res e. touched (after (handleSubmit validationRules (\<lambda>vs st. (res, st)) e s))
                 = touched s'
             \<and> errors (after (handleSubmit validationRules (\<lambda>vs st. (res, st)) e s))
                 = errors s')"
proof -
  from validateAll_returns [of validationRules s] obtain ok s' where
    run: "validateAll validationRules s = Inr (ok, s')"
    and tt: "\<forall>f. map_of (touched s') f
                = (if f \<in> fst ` set validationRules then Some True else None)"
    and ee: "\<forall>f m. validateField validationRules f (get_value (values' s) f) = Inr m \<longrightarrow>
           map_of (errors s') f
             = (if f \<in> fst ` set validationRules \<and> m \<noteq> [] then Some m else None)"
    by blast
  have "dom (map_of (touched s')) = fst ` set validationRules"
    using tt by (auto simp: dom_def)
  then have keys: "fst ` set (touched s') = fst ` set validationRules"
    by (simp add: dom_map_of_conv_image_fst)
  have entries: "\<forall>f. map_of (errors s') f
          = (case validateField validationRules f (get_value (values' s) f) of
               Inr m \<Rightarrow> if f \<in> fst ` set validationRules \<and> m \<noteq> [] then Some m else None
             | Inl err \<Rightarrow> None)"
  proof
    fix f
    show "map_of (errors s') f
          = (case validateField validationRules f (get_value (values' s) f) of
               Inr m \<Rightarrow> if f \<in> fst ` set validationRules \<and> m \<noteq> [] then Some m else None
             | Inl err \<Rightarrow> None)"
    proof (cases "validateField validationRules f (get_value (values' s) f)")
      case (Inr m)
      with ee show ?thesis by simp
    next
      case (Inl err)
      then have "f \<notin> fst ` set validationRules"
        using validateField_registered [of f validationRules "get_value (values' s) f"] by auto
      with validateAll_unregistered_errors [OF run] Inl show ?thesis by simp
    qed
  qed
  have total: "\<forall>f \<in> fst ` set validationRules.
          \<exists>m. validateField validationRules f (get_value (values' s) f) = Inr m"
    by (simp add: validateField_registered)
  have prior: "\<forall>t es. validateAll validationRules (s\<lparr>touched := t, errors := es\<rparr>)
          = validateAll validationRules s"
    by (simp add: validateAll_ignores_touched_errors)
  have stored: "\<forall>name m. validateAll validationRules (setFieldError name m s)
          = validateAll validationRules s"
    by (simp add: setFieldError_def validateAll_def split: sum.splits prod.splits)
  have submit: "\<forall>res e. touched (after (handleSubmit validationRules (\<lambda>vs st. (res, st)) e s))
                 = touched s'
             \<and> errors (after (handleSubmit validationRules (\<lambda>vs st. (res, st)) e s))
                 = errors s'"
    using run by (simp add: handleSubmit_after_quiet)
  show ?thesis
    by (intro exI conjI)
       (rule run, rule tt, rule keys, rule entries, rule total, rule prior, rule stored,
        rule submit)
qed

theorem validateAll_replaces_touched_and_errors_witness:
  "validateAll [(''name'', [required_rule ''req'']), (''terms'', [required_rule ''accept''])]
       \<lparr>values' = [(''name'', JStr ''Jo''), (''terms'', JBool False), (''bio'', JStr ''hi'')],
        errors = [(''bio'', ''stale'')], touched = [(''bio'', True)],
        isSubmitting = False, isDirty = True\<rparr>
     = Inr (False,
        \<lparr>values' = [(''name'', JStr ''Jo''), (''terms'', JBool False), (''bio'', JStr ''hi'')],
         errors = [(''terms'', ''accept'')], touched = [(''name'', True), (''terms'', True)],
         isSubmitting = False, isDirty = True\<rparr>)
   \<and> map_of [(''name'', True), (''terms'', True)] ''bio'' = None
   \<and> map_of [(''terms'', ''accept'')] ''bio'' = None
   \<and> ''terms'' \<in> fst ` set [(''name'', [required_rule ''req'']), (''terms'', [required_rule ''accept''])]
   \<and> map_of [(''terms'', ''accept'')] ''terms'' = Some ''accept''"
  using validateAll_replaces_touched_and_errors
    [of "[(''name'', [required_rule ''req'']), (''terms'', [required_rule ''accept''])]"
        "\<lparr>values' = [(''name'', JStr ''Jo''), (''terms'', JBool False), (''bio'', JStr ''hi'')],
          errors = [(''bio'', ''stale'')], touched = [(''bio'', True)],
          isSubmitting = False, isDirty = True\<rparr>"]
  by (simp add: validateAll_def validateField_def validateField_run_def js_lookup_def
      required_rule_def get_value_def)

subsection \<open>getFieldState\<close>

lemma is_touched_plain:
  "f \<notin> set proto_keys \<Longrightarrow> is_touched ts f = (map_of ts f = Some True)"
  by (auto simp: is_touched_def js_lookup_def split: option.splits)

lemma error_truthy_plain:
  "f \<notin> set proto_keys \<Longrightarrow> error_truthy es f = has_error es f"
  by (simp add: error_truthy_def has_error_def js_lookup_def split: option.splits)

lemma get_value_plain:
  "f \<notin> set proto_keys \<Longrightarrow>
   get_value vs f = (case map_of vs f of Some v \<Rightarrow> v | None \<Rightarrow> JUndefined)"
  by (simp add: get_value_def js_lookup_def split: option.splits)

text \<open>
  C6, as the code has it by design, for a field name \<open>f\<close> that \<open>Object.prototype\<close> does not
  define. In the variant without \<open>isDirty\<close>, \<open>getFieldState(f)\<close> is neutral when
  \<open>touched[f]\<close> is not true, otherwise error when \<open>errors[f]\<close> is a non-empty string,
  otherwise success. In the variant with \<open>isDirty\<close> the first two cases are the same (its
  neutral is the empty string), and a touched field without an error is success only when
  \<open>values[f]\<close> is truthy, and neutral otherwise.
\<close>

theorem getFieldState_by_variant:
  "f \<notin> set proto_keys \<longrightarrow>
     (map_of (touched s) f \<noteq> Some True \<longrightarrow>
        getFieldState_simple s f = ''neutral'' \<and> getFieldState s f = [])
   \<and> (map_of (touched s) f = Some True \<and> has_error (errors s) f \<longrightarrow>
        getFieldState_simple s f = ''error'' \<and> getFieldState s f = ''error'')
   \<and> (map_of (touched s) f = Some True \<and> \<not> has_error (errors s) f \<longrightarrow>
        getFieldState_simple s f = ''success''
        \<and> getFieldState s f
            = (if truthy (case map_of (values' s) f of Some v \<Rightarrow> v | None \<Rightarrow> JUndefined)
               then ''success'' else []))
   \<and> has_error (errors s) f = (\<exists>m. map_of (errors s) f = Some m \<and> m \<noteq> [])"
  by (auto simp: getFieldState_def getFieldState_simple_def is_touched_plain
      error_truthy_plain get_value_plain has_error_def split: option.splits)

theorem getFieldState_by_variant_witness:
  "''bio'' \<notin> set proto_keys
   \<and> map_of [(''bio'', True)] ''bio'' = Some True
   \<and> \<not> has_error [(''bio'', [])] ''bio''
   \<and> getFieldState_simple
        \<lparr>values' = [(''bio'', JStr ''hi'')], errors = [(''bio'', [])],
         touched = [(''bio'', True)], isSubmitting = False, isDirty = False\<rparr> ''bio''
       = ''success''
   \<and> getFieldState
        \<lparr>values' = [(''bio'', JStr ''hi'')], errors = [(''bio'', [])],
         touched = [(''bio'', True)], isSubmitting = False, isDirty = False\<rparr> ''bio''
       = ''success''
   \<and> map_of [] ''bio'' \<noteq> Some True
   \<and> getFieldState (initial_state [(''bio'', JStr ''hi'')]) ''bio'' = []
   \<and> getFieldState_simple (initial_state [(''bio'', JStr ''hi'')]) ''bio'' = ''neutral''
   \<and> has_error [(''bio'', ''bad'')] ''bio''
   \<and> getFieldState (setFieldError ''bio'' ''bad'' (initial_state [])) ''bio'' = ''error''"
  using
    getFieldState_by_variant [of "''bio''"
      "\<lparr>values' = [(''bio'', JStr ''hi'')], errors = [(''bio'', [])],
         touched = [(''bio'', True)], isSubmitting = False, isDirty = False\<rparr>"]
    getFieldState_by_variant [of "''bio''" "initial_state [(''bio'', JStr ''hi'')]"]
    getFieldState_by_variant [of "''bio''" "setFieldError ''bio'' ''bad'' (initial_state [])"]
  by (simp add: proto_keys_def initial_state_def setFieldError_def has_error_def)

text \<open>
  The claim as written fails on the variant with \<open>isDirty\<close>: after a blur of a field whose
  value is the empty string and which has no error, the field is touched and
  \<open>getFieldState\<close> is the empty string, not \<open>"success"\<close>.
\<close>

theorem getFieldState_success_counterexample:
  "handleBlur [] ''bio'' (initial_state [(''bio'', JStr [])])
     = Inr \<lparr>values' = [(''bio'', JStr [])], errors = [(''bio'', [])],
            touched = [(''bio'', True)], isSubmitting = False, isDirty = False\<rparr>
   \<and> is_touched [(''bio'', True)] ''bio''
   \<and> \<not> error_truthy [(''bio'', [])] ''bio''
   \<and> getFieldState \<lparr>values' = [(''bio'', JStr [])], errors = [(''bio'', [])],
        touched = [(''bio'', True)], isSubmitting = False, isDirty = False\<rparr> ''bio'' = []
   \<and> getFieldState \<lparr>values' = [(''bio'', JStr [])], errors = [(''bio'', [])],
        touched = [(''bio'', True)], isSubmitting = False, isDirty = False\<rparr> ''bio''
       \<noteq> ''success''"
  by (simp add: handleBlur_def initial_state_def getFieldState_def is_touched_def
      error_truthy_def get_value_def validateField_def validateField_run_def js_lookup_def
      proto_keys_def)

text \<open>
  For a name that \<open>Object.prototype\<close> defines, \<open>touched[name]\<close> and \<open>errors[name]\<close> read
  the inherited function while the objects have no entry of their own: at the first render
  \<open>getFieldState("toString")\<close> is \<open>"error"\<close> in both variants, and \<open>handleBlur("toString")\<close>
  throws after \<open>setTouched\<close>.
\<close>

lemma getFieldState_inherited_name:
  "getFieldState (initial_state [(''name'', JStr [])]) ''toString'' = ''error''
   \<and> getFieldState_simple (initial_state [(''name'', JStr [])]) ''toString'' = ''error''
   \<and> handleBlur [(''name'', [required_rule ''req''])] ''toString''
         (initial_state [(''name'', JStr [])])
       = Inl (TypeError,
              \<lparr>values' = [(''name'', JStr [])], errors = [],
               touched = [(''toString'', True)], isSubmitting = False, isDirty = False\<rparr>)"
  by (simp add: getFieldState_def getFieldState_simple_def initial_state_def is_touched_def
      error_truthy_def js_lookup_def proto_keys_def handleBlur_def validateField_def
      validateField_run_def get_value_def)

subsection \<open>Fields without rules\<close>

lemma validateField_unregistered_message:
  "map_of R g = None \<Longrightarrow> validateField R g v = Inr m \<Longrightarrow> m = []"
  by (auto simp: validateField_def validateField_run_def js_lookup_def split: if_splits)

lemma has_error_update:
  "has_error (AList.update k m es) g = (if g = k then m \<noteq> [] else has_error es g)"
  by (simp add: has_error_def update_conv')

lemma unregistered_valid_iff:
  "unregistered_valid R s = (\<forall>g. map_of R g = None \<longrightarrow> \<not> has_error (errors s) g)"
proof
  assume inv: "unregistered_valid R s"
  show "\<forall>g. map_of R g = None \<longrightarrow> \<not> has_error (errors s) g"
  proof (intro allI impI notI)
    fix g
    assume none: "map_of R g = None" and err: "has_error (errors s) g"
    from err obtain m where "map_of (errors s) g = Some m"
      by (auto simp: has_error_def split: option.splits)
    then have "g \<in> fst ` set (errors s)"
      by (metis domI dom_map_of_conv_image_fst)
    with inv have "map_of R g \<noteq> None \<or> \<not> has_error (errors s) g"
      unfolding unregistered_valid_def list_all_iff by fastforce
    with none err show False by simp
  qed
next
  assume "\<forall>g. map_of R g = None \<longrightarrow> \<not> has_error (errors s) g"
  then show "unregistered_valid R s"
    by (auto simp: unregistered_valid_def list_all_iff)
qed

lemma unregistered_valid_same_errors:
  "unregistered_valid R s \<Longrightarrow> errors s' = errors s \<Longrightarrow> unregistered_valid R s'"
  by (simp add: unregistered_valid_iff)

lemma unregistered_valid_write:
  assumes inv: "unregistered_valid R s"
    and msg: "validateField R g v = Inr m"
    and wr: "errors s' = AList.update g m (errors s)"
  shows "unregistered_valid R s'"
proof -
  have "\<not> has_error (errors s') h" if none: "map_of R h = None" for h
  proof (cases "h = g")
    case True
    with none msg have "m = []" by (simp add: validateField_unregistered_message)
    with True wr show ?thesis by (simp add: has_error_update)
  next
    case False
    from inv none have "\<not> has_error (errors s) h" by (simp add: unregistered_valid_iff)
    with False wr show ?thesis by (simp add: has_error_update)
  qed
  then show ?thesis by (simp add: unregistered_valid_iff)
qed

lemma unregistered_valid_handleBlur:
  assumes inv: "unregistered_valid R s"
  shows "unregistered_valid R (state_after (handleBlur R g s))"
proof (cases "validateField R g (get_value (values' s) g)")
  case (Inl err)
  then have "errors (state_after (handleBlur R g s)) = errors s"
    by (simp add: handleBlur_def state_after_def Let_def)
  with inv show ?thesis by (rule unregistered_valid_same_errors)
next
  case (Inr m)
  then have "errors (state_after (handleBlur R g s)) = AList.update g m (errors s)"
    by (simp add: handleBlur_def state_after_def Let_def)
  with inv Inr show ?thesis by (rule unregistered_valid_write)
qed

lemma unregistered_valid_handleChange:
  assumes inv: "unregistered_valid R s"
  shows "unregistered_valid R (state_after (handleChange R g p s))"
proof (cases "extract_value p")
  case (Inl err)
  then have "state_after (handleChange R g p s) = s"
    by (simp add: handleChange_def state_after_def)
  with inv show ?thesis by simp
next
  case (Inr v)
  show ?thesis
  proof (cases "validateField R g v")
    case (Inl err)
    with Inr have "errors (state_after (handleChange R g p s)) = errors s"
      by (simp add: handleChange_def state_after_def Let_def)
    with inv show ?thesis by (rule unregistered_valid_same_errors)
  next
    case m: (Inr m)
    with Inr have "errors (state_after (handleChange R g p s)) = AList.update g m (errors s)"
      by (simp add: handleChange_def state_after_def Let_def)
    with inv m show ?thesis by (rule unregistered_valid_write)
  qed
qed

lemma unregistered_valid_handleChange_simple:
  assumes inv: "unregistered_valid R s"
  shows "unregistered_valid R (state_after (handleChange_simple R g p s))"
proof (cases "get_prop p ''target''")
  case (Inl err)
  then have "state_after (handleChange_simple R g p s) = s"
    by (simp add: handleChange_simple_def state_after_def)
  with inv show ?thesis by simp
next
  case target: (Inr target)
  show ?thesis
  proof (cases "get_prop target ''value''")
    case (Inl err)
    with target have "state_after (handleChange_simple R g p s) = s"
      by (simp add: handleChange_simple_def state_after_def)
    with inv show ?thesis by simp
  next
    case v: (Inr v)
    show ?thesis
    proof (cases "validateField R g v")
      case (Inl err)
      with target v have "errors (state_after (handleChange_simple R g p s)) = errors s"
        by (simp add: handleChange_simple_def state_after_def Let_def)
      with inv show ?thesis by (rule unregistered_valid_same_errors)
    next
      case m: (Inr m)
      with target v
      have "errors (state_after (handleChange_simple R g p s)) = AList.update g m (errors s)"
        by (simp add: handleChange_simple_def state_after_def Let_def)
      with inv m show ?thesis by (rule unregistered_valid_write)
    qed
  qed
qed

lemma unregistered_valid_setFieldValue:
  "unregistered_valid R s \<Longrightarrow> unregistered_valid R (setFieldValue g v s)"
  by (simp add: unregistered_valid_iff setFieldValue_def)

lemma unregistered_valid_setFieldError:
  "unregistered_valid R s \<Longrightarrow> map_of R g \<noteq> None \<or> m = [] \<Longrightarrow>
   unregistered_valid R (setFieldError g m s)"
  by (auto simp: unregistered_valid_iff setFieldError_def has_error_update)

lemma unregistered_valid_validateAll:
  "validateAll R s = Inr (ok, s') \<Longrightarrow> unregistered_valid R s'"
  by (auto simp: unregistered_valid_iff validateAll_has_error map_of_eq_None_iff)

lemma not_touched_neutral:
  "\<not> is_touched (touched s) f \<Longrightarrow> getFieldState s f = [] \<and> getFieldState_simple s f = ''neutral''"
  by (simp add: getFieldState_def getFieldState_simple_def)

lemma touched_valid_state:
  "is_touched (touched s) f \<Longrightarrow> \<not> error_truthy (errors s) f \<Longrightarrow>
   getFieldState_simple s f = ''success''
   \<and> getFieldState s f = (if truthy (get_value (values' s) f) then ''success'' else [])"
  by (simp add: getFieldState_def getFieldState_simple_def)

lemma is_touched_written: "is_touched (AList.update f True ts) f"
  by (simp add: is_touched_def js_lookup_update)

lemma error_truthy_written: "\<not> error_truthy (AList.update f [] es) f"
  by (simp add: error_truthy_def js_lookup_update)

lemma get_value_written: "get_value (AList.update f v vs) f = v"
  by (simp add: get_value_def js_lookup_update)

lemma handleChange_unregistered:
  assumes none: "map_of R f = None" and plain: "f \<notin> set proto_keys"
    and ex: "extract_value p = Inr v"
  shows "\<exists>s'. handleChange R f p s = Inr s'
     \<and> is_touched (touched s') f \<and> \<not> error_truthy (errors s') f
     \<and> getFieldState s' f = (if truthy v then ''success'' else [])"
proof -
  from none plain have "validateField R f v = Inr []" by (rule validateField_unregistered)
  with ex have run: "handleChange R f p s =
     Inr (s\<lparr>values' := AList.update f v (values' s),
            touched := AList.update f True (touched s),
            isDirty := True,
            errors := AList.update f [] (errors s)\<rparr>)"
    by (rule handleChange_returns)
  show ?thesis
    unfolding run
    by (simp add: getFieldState_def is_touched_written error_truthy_written get_value_written)
qed

lemma handleChange_simple_unregistered:
  assumes none: "map_of R f = None" and plain: "f \<notin> set proto_keys"
    and run: "handleChange_simple R f p s = Inr s'"
  shows "is_touched (touched s') f \<and> \<not> error_truthy (errors s') f
     \<and> getFieldState_simple s' f = ''success''"
proof -
  from none plain have vf: "\<And>v. validateField R f v = Inr []"
    by (rule validateField_unregistered)
  from run vf obtain v where
    "s' = s\<lparr>values' := AList.update f v (values' s),
            touched := AList.update f True (touched s),
            errors := AList.update f [] (errors s)\<rparr>"
    by (auto simp: handleChange_simple_def Let_def split: sum.splits)
  then show ?thesis
    by (simp add: getFieldState_simple_def is_touched_written error_truthy_written)
qed

lemma handleBlur_unregistered:
  assumes none: "map_of R f = None" and plain: "f \<notin> set proto_keys"
  shows "\<exists>s'. handleBlur R f s = Inr s'
     \<and> is_touched (touched s') f \<and> \<not> error_truthy (errors s') f
     \<and> getFieldState_simple s' f = ''success''
     \<and> getFieldState s' f = (if truthy (get_value (values' s) f) then ''success'' else [])"
proof -
  from none plain have "validateField R f (get_value (values' s) f) = Inr []"
    by (rule validateField_unregistered)
  then have run: "handleBlur R f s =
      Inr (s\<lparr>touched := AList.update f True (touched s),
             errors := AList.update f [] (errors s)\<rparr>)"
    by (simp add: handleBlur_def Let_def)
  show ?thesis
    unfolding run
    by (simp add: getFieldState_def getFieldState_simple_def is_touched_written
        error_truthy_written)
qed

text \<open>
  C7, as the code has it by design, for a field \<open>f\<close> without an entry in \<open>validationRules\<close>
  whose name \<open>Object.prototype\<close> does not define: \<open>validateField(f, v)\<close> is empty for every
  \<open>v\<close>; \<open>getFieldState(f)\<close> is neutral in the state of the first render, after \<open>reset()\<close>
  and after every full validation pass (\<open>validateAll()\<close>, or a submit whose callback leaves
  the state alone), which all leave \<open>f\<close> untouched. After \<open>handleChange(f)\<close> or
  \<open>handleBlur(f)\<close> the field is touched and has no error, and \<open>getFieldState(f)\<close> is success
  (in the variant with \<open>isDirty\<close>: success when \<open>values[f]\<close> is truthy, neutral otherwise).
  In every state reached from the first render by \<open>handleChange\<close>, \<open>handleBlur\<close> (whether
  they return or throw), \<open>validateAll\<close>, such a submit, \<open>reset\<close>, \<open>setFieldValue\<close>, and
  \<open>setFieldError\<close> on registered fields, \<open>getFieldState(f)\<close> is never error.
\<close>

theorem unregistered_field_state:
  "map_of validationRules f = None \<and> f \<notin> set proto_keys \<longrightarrow>
     (\<forall>v. validateField validationRules f v = Inr [])
   \<and> getFieldState (initial_state initialValues) f = []
   \<and> getFieldState_simple (initial_state initialValues) f = ''neutral''
   \<and> getFieldState (reset initialValues s) f = []
   \<and> getFieldState_simple (reset initialValues s) f = ''neutral''
   \<and> (\<exists>ok s'. validateAll validationRules s = Inr (ok, s')
         \<and> getFieldState s' f = [] \<and> getFieldState_simple s' f = ''neutral''
         \<and> unregistered_valid validationRules s')
   \<and> (\<forall>res e.
         getFieldState (after (handleSubmit validationRules (\<lambda>vs st. (res, st)) e s)) f = []
       \<and> getFieldState_simple (after (handleSubmit validationRules (\<lambda>vs st. (res, st)) e s)) f
           = ''neutral''
       \<and> unregistered_valid validationRules
           (after (handleSubmit validationRules (\<lambda>vs st. (res, st)) e s)))
   \<and> (\<forall>p v. extract_value p = Inr v \<longrightarrow>
         (\<exists>s'. handleChange validationRules f p s = Inr s'
            \<and> is_touched (touched s') f \<and> \<not> error_truthy (errors s') f
            \<and> getFieldState s' f = (if truthy v then ''success'' else [])))
   \<and> (\<forall>p s'. handleChange_simple validationRules f p s = Inr s' \<longrightarrow>
         is_touched (touched s') f \<and> \<not> error_truthy (errors s') f
       \<and> getFieldState_simple s' f = ''success'')
   \<and> (\<exists>s'. handleBlur validationRules f s = Inr s'
         \<and> is_touched (touched s') f \<and> \<not> error_truthy (errors s') f
         \<and> getFieldState_simple s' f = ''success''
         \<and> getFieldState s' f
             = (if truthy (get_value (values' s) f) then ''success'' else []))
   \<and> unregistered_valid validationRules (initial_state initialValues)
   \<and> unregistered_valid validationRules (reset initialValues s)
   \<and> (unregistered_valid validationRules s \<longrightarrow>
         (\<forall>g. unregistered_valid validationRules
                (state_after (handleBlur validationRules g s)))
       \<and> (\<forall>g p. unregistered_valid validationRules
                (state_after (handleChange validationRules g p s)))
       \<and> (\<forall>g p. unregistered_valid validationRules
                (state_after (handleChange_simple validationRules g p s)))
       \<and> (\<forall>g v. unregistered_valid validationRules (setFieldValue g v s))
       \<and> (\<forall>g m. map_of validationRules g \<noteq> None \<longrightarrow>
             unregistered_valid validationRules (setFieldError g m s))
       \<and> getFieldState s f \<noteq> ''error''
       \<and> getFieldState_simple s f \<noteq> ''error'')"
proof (rule impI)
  assume hyp: "map_of validationRules f = None \<and> f \<notin> set proto_keys"
  then have none: "map_of validationRules f = None" and plain: "f \<notin> set proto_keys"
    by simp_all
  have vf: "\<forall>v. validateField validationRules f v = Inr []"
    using none plain by (simp add: validateField_unregistered)
  have init: "\<not> is_touched (touched (initial_state initialValues)) f"
    using plain by (simp add: initial_state_def is_touched_plain)
  have rst: "\<not> is_touched (touched (reset initialValues s)) f"
    using plain by (simp add: reset_def is_touched_plain)
  from validateAll_returns [of validationRules s] obtain ok s2 where
    run: "validateAll validationRules s = Inr (ok, s2)"
    and tt: "\<forall>g. map_of (touched s2) g
                = (if g \<in> fst ` set validationRules then Some True else None)"
    by blast
  from none have "f \<notin> fst ` set validationRules"
    by (simp add: map_of_eq_None_iff)
  with tt plain have pass_untouched: "\<not> is_touched (touched s2) f"
    by (simp add: is_touched_plain)
  have inv2: "unregistered_valid validationRules s2"
    using run by (rule unregistered_valid_validateAll)
  have pass: "\<exists>ok s'. validateAll validationRules s = Inr (ok, s')
         \<and> getFieldState s' f = [] \<and> getFieldState_simple s' f = ''neutral''
         \<and> unregistered_valid validationRules s'"
    using run not_touched_neutral [OF pass_untouched] inv2 by blast
  have submit: "\<forall>res e.
         getFieldState (after (handleSubmit validationRules (\<lambda>vs st. (res, st)) e s)) f = []
       \<and> getFieldState_simple (after (handleSubmit validationRules (\<lambda>vs st. (res, st)) e s)) f
           = ''neutral''
       \<and> unregistered_valid validationRules
           (after (handleSubmit validationRules (\<lambda>vs st. (res, st)) e s))"
  proof (intro allI)
    fix res e
    have final: "after (handleSubmit validationRules (\<lambda>vs st. (res, st)) e s)
        = s2\<lparr>isSubmitting := False\<rparr>"
      using run by (rule handleSubmit_after_quiet)
    have "\<not> is_touched (touched (s2\<lparr>isSubmitting := False\<rparr>)) f"
      using pass_untouched by simp
    from not_touched_neutral [OF this] inv2
    show "getFieldState (after (handleSubmit validationRules (\<lambda>vs st. (res, st)) e s)) f = []
       \<and> getFieldState_simple (after (handleSubmit validationRules (\<lambda>vs st. (res, st)) e s)) f
           = ''neutral''
       \<and> unregistered_valid validationRules
           (after (handleSubmit validationRules (\<lambda>vs st. (res, st)) e s))"
      unfolding final by (simp add: unregistered_valid_iff)
  qed
  have change: "\<forall>p v. extract_value p = Inr v \<longrightarrow>
         (\<exists>s'. handleChange validationRules f p s = Inr s'
            \<and> is_touched (touched s') f \<and> \<not> error_truthy (errors s') f
            \<and> getFieldState s' f = (if truthy v then ''success'' else []))"
    using handleChange_unregistered [OF none plain] by blast
  have change_simple: "\<forall>p s'. handleChange_simple validationRules f p s = Inr s' \<longrightarrow>
         is_touched (touched s') f \<and> \<not> error_truthy (errors s') f
       \<and> getFieldState_simple s' f = ''success''"
    using handleChange_simple_unregistered [OF none plain] by blast
  have blur: "\<exists>s'. handleBlur validationRules f s = Inr s'
         \<and> is_touched (touched s') f \<and> \<not> error_truthy (errors s') f
         \<and> getFieldState_simple s' f = ''success''
         \<and> getFieldState s' f
             = (if truthy (get_value (values' s) f) then ''success'' else [])"
    using none plain by (rule handleBlur_unregistered)
  have inv0: "unregistered_valid validationRules (initial_state initialValues)"
    by (simp add: unregistered_valid_def initial_state_def)
  have inv1: "unregistered_valid validationRules (reset initialValues s)"
    by (simp add: unregistered_valid_def reset_def)
  have step: "unregistered_valid validationRules s \<longrightarrow>
         (\<forall>g. unregistered_valid validationRules
                (state_after (handleBlur validationRules g s)))
       \<and> (\<forall>g p. unregistered_valid validationRules
                (state_after (handleChange validationRules g p s)))
       \<and> (\<forall>g p. unregistered_valid validationRules
                (state_after (handleChange_simple validationRules g p s)))
       \<and> (\<forall>g v. unregistered_valid validationRules (setFieldValue g v s))
       \<and> (\<forall>g m. map_of validationRules g \<noteq> None \<longrightarrow>
             unregistered_valid validationRules (setFieldError g m s))
       \<and> getFieldState s f \<noteq> ''error''
       \<and> getFieldState_simple s f \<noteq> ''error''"
  proof (intro impI conjI allI)
    fix g
    assume "unregistered_valid validationRules s"
    then show "unregistered_valid validationRules (state_after (handleBlur validationRules g s))"
      by (rule unregistered_valid_handleBlur)
  next
    fix g p
    assume "unregistered_valid validationRules s"
    then show "unregistered_valid validationRules
        (state_after (handleChange validationRules g p s))"
      by (rule unregistered_valid_handleChange)
  next
    fix g p
    assume "unregistered_valid validationRules s"
    then show "unregistered_valid validationRules
        (state_after (handleChange_simple validationRules g p s))"
      by (rule unregistered_valid_handleChange_simple)
  next
    fix g v
    assume "unregistered_valid validationRules s"
    then show "unregistered_valid validationRules (setFieldValue g v s)"
      by (rule unregistered_valid_setFieldValue)
  next
    fix g m
    assume "unregistered_valid validationRules s" "map_of validationRules g \<noteq> None"
    then show "unregistered_valid validationRules (setFieldError g m s)"
      by (simp add: unregistered_valid_setFieldError)
  next
    assume "unregistered_valid validationRules s"
    with none have "\<not> has_error (errors s) f" by (simp add: unregistered_valid_iff)
    with plain show "getFieldState s f \<noteq> ''error''"
      by (simp add: getFieldState_def error_truthy_plain)
  next
    assume "unregistered_valid validationRules s"
    with none have "\<not> has_error (errors s) f" by (simp add: unregistered_valid_iff)
    with plain show "getFieldState_simple s f \<noteq> ''error''"
      by (simp add: getFieldState_simple_def error_truthy_plain)
  qed
  show "(\<forall>v. validateField validationRules f v = Inr [])
   \<and> getFieldState (initial_state initialValues) f = []
   \<and> getFieldState_simple (initial_state initialValues) f = ''neutral''
   \<and> getFieldState (reset initialValues s) f = []
   \<and> getFieldState_simple (reset initialValues s) f = ''neutral''
   \<and> (\<exists>ok s'. validateAll validationRules s = Inr (ok, s')
         \<and> getFieldState s' f = [] \<and> getFieldState_simple s' f = ''neutral''
         \<and> unregistered_valid validationRules s')
   \<and> (\<forall>res e.
         getFieldState (after (handleSubmit validationRules (\<lambda>vs st. (res, st)) e s)) f = []
       \<and> getFieldState_simple (after (handleSubmit validationRules (\<lambda>vs st. (res, st)) e s)) f
           = ''neutral''
       \<and> unregistered_valid validationRules
           (after (handleSubmit validationRules (\<lambda>vs st. (res, st)) e s)))
   \<and> (\<forall>p v. extract_value p = Inr v \<longrightarrow>
         (\<exists>s'. handleChange validationRules f p s = Inr s'
            \<and> is_touched (touched s') f \<and> \<not> error_truthy (errors s') f
            \<and> getFieldState s' f = (if truthy v then ''success'' else [])))
   \<and> (\<forall>p s'. handleChange_simple validationRules f p s = Inr s' \<longrightarrow>
         is_touched (touched s') f \<and> \<not> error_truthy (errors s') f
       \<and> getFieldState_simple s' f = ''success'')
   \<and> (\<exists>s'. handleBlur validationRules f s = Inr s'
         \<and> is_touched (touched s') f \<and> \<not> error_truthy (errors s') f
         \<and> getFieldState_simple s' f = ''success''
         \<and> getFieldState s' f
             = (if truthy (get_value (values' s) f) then ''success'' else []))
   \<and> unregistered_valid validationRules (initial_state initialValues)
   \<and> unregistered_valid validationRules (reset initialValues s)
   \<and> (unregistered_valid validationRules s \<longrightarrow>
         (\<forall>g. unregistered_valid validationRules
                (state_after (handleBlur validationRules g s)))
       \<and> (\<forall>g p. unregistered_valid validationRules
                (state_after (handleChange validationRules g p s)))
       \<and> (\<forall>g p. unregistered_valid validationRules
                (state_after (handleChange_simple validationRules g p s)))
       \<and> (\<forall>g v. unregistered_valid validationRules (setFieldValue g v s))
       \<and> (\<forall>g m. map_of validationRules g \<noteq> None \<longrightarrow>
             unregistered_valid validationRules (setFieldError g m s))
       \<and> getFieldState s f \<noteq> ''error''
       \<and> getFieldState_simple s f \<noteq> ''error'')"
    by (intro conjI)
       (rule vf,
        rule not_touched_neutral [OF init, THEN conjunct1],
        rule not_touched_neutral [OF init, THEN conjunct2],
        rule not_touched_neutral [OF rst, THEN conjunct1],
        rule not_touched_neutral [OF rst, THEN conjunct2],
        rule pass,
        rule submit,
        rule change,
        rule change_simple,
        rule blur,
        rule inv0,
        rule inv1,
        rule step)
qed

theorem unregistered_field_state_witness:
  "map_of [(''name'', [required_rule ''req''])] ''bio'' = None
   \<and> ''bio'' \<notin> set proto_keys
   \<and> validateField [(''name'', [required_rule ''req''])] ''bio'' (JStr []) = Inr []
   \<and> getFieldState (initial_state [(''name'', JStr []), (''bio'', JStr [])]) ''bio'' = []
   \<and> extract_value (JStr ''hi'') = Inr (JStr ''hi'')
   \<and> handleChange [(''name'', [required_rule ''req''])] ''bio'' (JStr ''hi'')
        (initial_state [(''name'', JStr []), (''bio'', JStr [])])
      = Inr \<lparr>values' = [(''name'', JStr []), (''bio'', JStr ''hi'')], errors = [(''bio'', [])],
             touched = [(''bio'', True)], isSubmitting = False, isDirty = True\<rparr>
   \<and> unregistered_valid [(''name'', [required_rule ''req''])]
        (initial_state [(''name'', JStr []), (''bio'', JStr [])])
   \<and> getFieldState (initial_state [(''name'', JStr []), (''bio'', JStr [])]) ''bio''
       \<noteq> ''error''"
proof -
  have hyp: "map_of [(''name'', [required_rule ''req''])] ''bio'' = None
      \<and> ''bio'' \<notin> set proto_keys"
    by (simp add: proto_keys_def)
  have ex: "extract_value (JStr ''hi'') = Inr (JStr ''hi'')"
    by (simp add: extract_value_def is_event_def)
  have run: "handleChange [(''name'', [required_rule ''req''])] ''bio'' (JStr ''hi'')
        (initial_state [(''name'', JStr []), (''bio'', JStr [])])
      = Inr \<lparr>values' = [(''name'', JStr []), (''bio'', JStr ''hi'')], errors = [(''bio'', [])],
             touched = [(''bio'', True)], isSubmitting = False, isDirty = True\<rparr>"
    by (simp add: handleChange_def extract_value_def is_event_def initial_state_def
        validateField_def validateField_run_def js_lookup_def proto_keys_def)
  note inst = unregistered_field_state
      [of "[(''name'', [required_rule ''req''])]" "''bio''"
          "[(''name'', JStr []), (''bio'', JStr [])]"
          "initial_state [(''name'', JStr []), (''bio'', JStr [])]", THEN mp, OF hyp]
  note rest = inst [THEN conjunct2]
  note from_inv0 = rest [THEN conjunct2, THEN conjunct2, THEN conjunct2, THEN conjunct2,
      THEN conjunct2, THEN conjunct2, THEN conjunct2, THEN conjunct2, THEN conjunct2]
  note inv0 = from_inv0 [THEN conjunct1]
  note step = from_inv0 [THEN conjunct2, THEN conjunct2, THEN mp, OF inv0]
  show ?thesis
    by (intro conjI)
       (rule hyp [THEN conjunct1],
        rule hyp [THEN conjunct2],
        rule inst [THEN conjunct1, THEN spec],
        rule rest [THEN conjunct1],
        rule ex,
        rule run,
        rule inv0,
        rule step [THEN conjunct2, THEN conjunct2, THEN conjunct2, THEN conjunct2,
          THEN conjunct2, THEN conjunct1])
qed

text \<open>
  The claim as written fails in both variants: \<open>bio\<close> has no rules, and after
  \<open>handleChange("bio")("hi")\<close> on the state of the first render \<open>getFieldState("bio")\<close> is
  \<open>"success"\<close>, not neutral.
\<close>

theorem unregistered_field_state_counterexample:
  "map_of [(''name'', [required_rule ''req''])] ''bio'' = None
   \<and> handleChange [(''name'', [required_rule ''req''])] ''bio'' (JStr ''hi'')
        (initial_state [(''name'', JStr []), (''bio'', JStr [])])
      = Inr \<lparr>values' = [(''name'', JStr []), (''bio'', JStr ''hi'')], errors = [(''bio'', [])],
             touched = [(''bio'', True)], isSubmitting = False, isDirty = True\<rparr>
   \<and> getFieldState \<lparr>values' = [(''name'', JStr []), (''bio'', JStr ''hi'')],
        errors = [(''bio'', [])], touched = [(''bio'', True)],
        isSubmitting = False, isDirty = True\<rparr> ''bio'' = ''success''
   \<and> handleChange_simple [(''name'', [required_rule ''req''])] ''bio''
        (JObj [(''target'', JObj [(''value'', JStr ''hi'')])])
        (initial_state [(''name'', JStr []), (''bio'', JStr [])])
      = Inr \<lparr>values' = [(''name'', JStr []), (''bio'', JStr ''hi'')], errors = [(''bio'', [])],
             touched = [(''bio'', True)], isSubmitting = False, isDirty = False\<rparr>
   \<and> getFieldState_simple \<lparr>values' = [(''name'', JStr []), (''bio'', JStr ''hi'')],
        errors = [(''bio'', [])], touched = [(''bio'', True)],
        isSubmitting = False, isDirty = False\<rparr> ''bio'' = ''success''"
  by (simp add: handleChange_def handleChange_simple_def extract_value_def is_event_def
      initial_state_def validateField_def validateField_run_def getFieldState_def
      getFieldState_simple_def is_touched_def error_truthy_def get_value_def js_lookup_def
      proto_keys_def)

subsection \<open>reset, setFieldValue, setFieldError\<close>

text \<open>
  C8. From every state, \<open>reset()\<close> gives the state of the first render: \<open>values\<close> is the
  \<open>initialValues\<close> given to the hook, \<open>errors\<close> and \<open>touched\<close> are empty, \<open>isSubmitting\<close>
  and \<open>isDirty\<close> are false.
\<close>

theorem reset_restores_initial:
  "values' (reset initialValues s) = initialValues
   \<and> errors (reset initialValues s) = []
   \<and> touched (reset initialValues s) = []
   \<and> \<not> isSubmitting (reset initialValues s)
   \<and> \<not> isDirty (reset initialValues s)
   \<and> reset initialValues s = initial_state initialValues"
  by (simp add: reset_def initial_state_def)

theorem reset_restores_initial_witness:
  "reset [(''name'', JStr []), (''terms'', JBool False)]
     \<lparr>values' = [(''name'', JStr ''Jo''), (''terms'', JBool True)],
      errors = [(''name'', ''taken'')], touched = [(''name'', True)],
      isSubmitting = True, isDirty = True\<rparr>
   = \<lparr>values' = [(''name'', JStr []), (''terms'', JBool False)], errors = [], touched = [],
      isSubmitting = False, isDirty = False\<rparr>"
  using reset_restores_initial
    [of "[(''name'', JStr []), (''terms'', JBool False)]"
        "\<lparr>values' = [(''name'', JStr ''Jo''), (''terms'', JBool True)],
          errors = [(''name'', ''taken'')], touched = [(''name'', True)],
          isSubmitting = True, isDirty = True\<rparr>"]
  by (simp add: initial_state_def)

text \<open>
  C9. \<open>setFieldValue(f, v)\<close> sets \<open>values[f] = v\<close> and \<open>isDirty = true\<close> and leaves \<open>errors\<close>,
  \<open>touched\<close> (and \<open>isSubmitting\<close>) as they were: no rule is run. \<open>setFieldError(f, m)\<close> sets
  \<open>errors[f] = m\<close> and \<open>touched[f] = true\<close> and leaves \<open>values\<close>, \<open>isDirty\<close> (and
  \<open>isSubmitting\<close>) as they were. Neither changes the entry of another field.
\<close>

theorem setFieldValue_setFieldError_frame:
  "map_of (values' (setFieldValue f v s)) f = Some v
   \<and> isDirty (setFieldValue f v s)
   \<and> errors (setFieldValue f v s) = errors s
   \<and> touched (setFieldValue f v s) = touched s
   \<and> isSubmitting (setFieldValue f v s) = isSubmitting s
   \<and> (\<forall>g. g \<noteq> f \<longrightarrow> map_of (values' (setFieldValue f v s)) g = map_of (values' s) g)
   \<and> map_of (errors (setFieldError f m s)) f = Some m
   \<and> map_of (touched (setFieldError f m s)) f = Some True
   \<and> values' (setFieldError f m s) = values' s
   \<and> isDirty (setFieldError f m s) = isDirty s
   \<and> isSubmitting (setFieldError f m s) = isSubmitting s
   \<and> (\<forall>g. g \<noteq> f \<longrightarrow> map_of (errors (setFieldError f m s)) g = map_of (errors s) g
              \<and> map_of (touched (setFieldError f m s)) g = map_of (touched s) g)"
  by (simp add: setFieldValue_def setFieldError_def update_conv')

theorem setFieldValue_setFieldError_frame_witness:
  "setFieldValue ''name'' (JStr []) 
     \<lparr>values' = [(''name'', JStr ''Jo'')], errors = [], touched = [],
      isSubmitting = False, isDirty = False\<rparr>
   = \<lparr>values' = [(''name'', JStr [])], errors = [], touched = [],
      isSubmitting = False, isDirty = True\<rparr>
   \<and> setFieldError ''name'' ''taken''
     \<lparr>values' = [(''name'', JStr ''Jo'')], errors = [], touched = [],
      isSubmitting = False, isDirty = False\<rparr>
   = \<lparr>values' = [(''name'', JStr ''Jo'')], errors = [(''name'', ''taken'')],
      touched = [(''name'', True)], isSubmitting = False, isDirty = False\<rparr>
   \<and> ''terms'' \<noteq> ''name''
   \<and> map_of (errors (setFieldError ''name'' ''taken''
     \<lparr>values' = [(''name'', JStr ''Jo'')], errors = [], touched = [],
      isSubmitting = False, isDirty = False\<rparr>)) ''terms'' = None"
  using setFieldValue_setFieldError_frame
    [of "''name''" "JStr []"
        "\<lparr>values' = [(''name'', JStr ''Jo'')], errors = [], touched = [],
          isSubmitting = False, isDirty = False\<rparr>" "''taken''"]
  by (simp add: setFieldValue_def setFieldError_def)

end
